theory Spec2Isabelle
  imports Main "HOL-Library.Stream" "HOL-Library.Sublist"
begin

section \<open>The reading-list page: data model\<close>

text \<open>
  The page keeps a list of papers and derives three lists from it on every render:
  \<open>todaysPapers\<close>, \<open>thisWeeksPapers\<close> and \<open>upcomingPapers\<close>, each a
  \<open>papers.filter(...)\<close> whose callback reads the clock with \<open>new Date()\<close>.

  Of a \<open>Paper\<close> the three callbacks read two optional fields only:
  \<^item> \<open>scheduled_date\<close>, an ISO timestamp string. The callbacks test it for truthiness and
    pass it to \<open>new Date(...)\<close>. The model keeps the instant that results, in
    milliseconds since the epoch (what \<open>getTime()\<close> returns); \<open>None\<close> stands for an
    absent or empty string, the two falsy cases. A present string is taken to parse (it
    was written by \<open>toISOString()\<close> in \<open>handleSchedulePaper\<close>).
  \<^item> \<open>repeat\<close>, a string; \<open>None\<close> stands for \<open>undefined\<close>. The declared values are
    \<open>'daily'\<close>, \<open>'weekly'\<close>, \<open>'monthly'\<close> and \<open>'none'\<close>, but the callbacks
    switch on the string itself, so the model keeps the string.
\<close>

record paper =
  id_paper :: string
  scheduled_date :: "int option"
  repeat :: "string option"

text \<open>JavaScript truthiness of an optional string: \<open>undefined\<close> and \<open>''\<close> are falsy.\<close>

definition truthy :: "string option \<Rightarrow> bool" where
  "truthy r = (case r of None \<Rightarrow> False | Some s \<Rightarrow> s \<noteq> [])"

section \<open>Dates\<close>

text \<open>
  A \<open>Date\<close> is its time value, an \<open>int\<close> of milliseconds since the epoch. The local
  time zone is a parameter \<open>tz\<close>: the milliseconds to add to a time value to get local
  wall-clock time, the same at every instant (a zone without daylight-saving
  transitions; \<open>tz = 0\<close> is UTC). Calendar fields follow the proleptic Gregorian
  calendar, as ECMAScript's \<open>Day\<close>, \<open>YearFromTime\<close>, \<open>MonthFromTime\<close>,
  \<open>DateFromTime\<close> and \<open>MakeDay\<close> do. Months are numbered from 0, as in JavaScript.
\<close>

definition msPerDay :: int where
  "msPerDay = 1000 * 60 * 60 * 24"

text \<open>The number of the local calendar day of an instant (day 0 is 1970-01-01).\<close>

definition localDay :: "int \<Rightarrow> int \<Rightarrow> int" where
  "localDay tz t = (t + tz) div msPerDay"

text \<open>The milliseconds elapsed since local midnight.\<close>

definition timeInDay :: "int \<Rightarrow> int \<Rightarrow> int" where
  "timeInDay tz t = (t + tz) mod msPerDay"

text \<open>Year, month (0 to 11) and day of the month (1 to 31) of a day number.\<close>

definition civil_from_days :: "int \<Rightarrow> int \<times> int \<times> int" where
  "civil_from_days z =
     (let z' = z + 719468;
          era = z' div 146097;
          doe = z' mod 146097;
          yoe = (doe - doe div 1460 + doe div 36524 - doe div 146096) div 365;
          doy = doe - (365 * yoe + yoe div 4 - yoe div 100);
          mp = (5 * doy + 2) div 153;
          d = doy - (153 * mp + 2) div 5 + 1;
          m = (if mp < 10 then mp + 2 else mp - 10);
          y = yoe + era * 400
      in (if m \<le> 1 then y + 1 else y, m, d))"

text \<open>
  \<open>MakeDay(year, month, date)\<close>: the day number of a year, a month and a day of the
  month, where a month outside 0 to 11 carries into the year and a day outside the month
  carries into the neighbouring months (day 31 of a 30-day month is the 1st of the next).
\<close>

definition days_from_civil :: "int \<Rightarrow> int \<Rightarrow> int \<Rightarrow> int" where
  "days_from_civil year month date =
     (let ym = year + month div 12;
          mn = month mod 12;
          y = (if mn \<le> 1 then ym - 1 else ym);
          era = y div 400;
          yoe = y mod 400;
          mp = (if mn \<le> 1 then mn + 10 else mn - 2);
          doy = (153 * mp + 2) div 5;
          doe = yoe * 365 + yoe div 4 - yoe div 100 + doy
      in era * 146097 + doe - 719468 + (date - 1))"

definition getFullYear :: "int \<Rightarrow> int \<Rightarrow> int" where
  "getFullYear tz t = fst (civil_from_days (localDay tz t))"

definition getMonth :: "int \<Rightarrow> int \<Rightarrow> int" where
  "getMonth tz t = fst (snd (civil_from_days (localDay tz t)))"

definition getDate :: "int \<Rightarrow> int \<Rightarrow> int" where
  "getDate tz t = snd (snd (civil_from_days (localDay tz t)))"

text \<open>\<open>getDay()\<close>: the day of the week, 0 for Sunday; 1970-01-01 was a Thursday.\<close>

definition getDay :: "int \<Rightarrow> int \<Rightarrow> int" where
  "getDay tz t = (localDay tz t + 4) mod 7"

text \<open>\<open>new Date(year, monthIndex, day)\<close>: local midnight of that day (years from 100 on).\<close>

definition new_Date_ymd :: "int \<Rightarrow> int \<Rightarrow> int \<Rightarrow> int \<Rightarrow> int" where
  "new_Date_ymd tz year month date = days_from_civil year month date * msPerDay - tz"

text \<open>\<open>d.setHours(0, 0, 0, 0)\<close>: local midnight of the day of \<open>d\<close>.\<close>

definition setHours0 :: "int \<Rightarrow> int \<Rightarrow> int" where
  "setHours0 tz t = localDay tz t * msPerDay - tz"

text \<open>\<open>d.setDate(n)\<close>: day \<open>n\<close> of the month of \<open>d\<close>, at the time of day of \<open>d\<close>.\<close>

definition setDate :: "int \<Rightarrow> int \<Rightarrow> int \<Rightarrow> int" where
  "setDate tz t n =
     days_from_civil (getFullYear tz t) (getMonth tz t) n * msPerDay + timeInDay tz t - tz"

text \<open>\<open>d.setMonth(m)\<close>: month \<open>m\<close> of the year of \<open>d\<close>, same day of the month and time.\<close>

definition setMonth :: "int \<Rightarrow> int \<Rightarrow> int \<Rightarrow> int" where
  "setMonth tz t m =
     days_from_civil (getFullYear tz t) m (getDate tz t) * msPerDay + timeInDay tz t - tz"

text \<open>
  \<open>Date.UTC(year, monthIndex, day, hours, minutes)\<close>: the time value of a UTC wall-clock
  time. The examples below write their instants with it.
\<close>

definition Date_UTC :: "int \<Rightarrow> int \<Rightarrow> int \<Rightarrow> int \<Rightarrow> int \<Rightarrow> int" where
  "Date_UTC year month date hours minutes =
     days_from_civil year month date * msPerDay + hours * 3600000 + minutes * 60000"

text \<open>
  \<open>format(d, 'yyyy-MM-dd')\<close> of date-fns renders the local calendar day of \<open>d\<close>. The
  callbacks only compare two renderings with \<open>===\<close>; the rendering names the calendar
  day one-to-one, so the model takes the day number for it.
\<close>

definition format_yyyy_MM_dd :: "int \<Rightarrow> int \<Rightarrow> int" where
  "format_yyyy_MM_dd tz t = localDay tz t"

text \<open>
  \<open>startOfWeek(d)\<close> and \<open>endOfWeek(d)\<close> of date-fns with their default first day of
  the week, Sunday: local midnight of the Sunday on or before \<open>d\<close>, and the last
  millisecond (23:59:59.999) of the Saturday on or after it.
\<close>

definition startOfWeek :: "int \<Rightarrow> int \<Rightarrow> int" where
  "startOfWeek tz t = (localDay tz t - getDay tz t) * msPerDay - tz"

definition endOfWeek :: "int \<Rightarrow> int \<Rightarrow> int" where
  "endOfWeek tz t = (localDay tz t - getDay tz t + 7) * msPerDay - tz - 1"

text \<open>\<open>isWithinInterval(d, {start, end})\<close>: both ends belong to the interval.\<close>

definition isWithinInterval :: "int \<Rightarrow> int \<Rightarrow> int \<Rightarrow> bool" where
  "isWithinInterval t start end' = (start \<le> t \<and> t \<le> end')"

text \<open>
  JavaScript's \<open>a % b\<close> on integers: the remainder of the division that truncates
  towards zero, with the sign of \<open>a\<close> (\<open>-8 % 7\<close> is \<open>-1\<close>, and \<open>-7 % 7\<close> is
  \<open>-0\<close>, which \<open>===\<close> takes for \<open>0\<close>).
\<close>

definition js_rem :: "int \<Rightarrow> int \<Rightarrow> int" where
  "js_rem a b = sgn a * (\<bar>a\<bar> mod \<bar>b\<bar>)"

text \<open>
  \<open>Math.floor((a.getTime() - b.getTime()) / (1000 * 60 * 60 * 24))\<close>: the whole
  24-hour periods from \<open>b\<close> to \<open>a\<close>, rounded down. The code computes the quotient
  in double precision; for two instants less than \<open>2 ^ 53\<close> milliseconds apart the
  difference is exact and the rounded quotient has the integer floor of the exact one,
  which is what the model takes.
\<close>

definition daysBetween :: "int \<Rightarrow> int \<Rightarrow> int" where
  "daysBetween a b = (a - b) div msPerDay"

section \<open>The three filter callbacks\<close>

text \<open>
  Each callback is modelled with the value its \<open>new Date()\<close> returned as a parameter:
  \<open>today\<close> in the first two, and \<open>now\<close> in the third, which resets its copy to
  midnight and calls the result \<open>today\<close>. A callback returns \<open>false\<close> for a paper
  without \<open>scheduled_date\<close> before it reads the clock. The \<open>switch\<close> on
  \<open>paper.repeat\<close> is the chain of string comparisons it stands for, with
  \<open>default\<close> last.
\<close>

definition todaysPapers_cb :: "int \<Rightarrow> int \<Rightarrow> paper \<Rightarrow> bool" where
  "todaysPapers_cb tz today paper =
     (case scheduled_date paper of
        None \<Rightarrow> False
      | Some scheduledDate \<Rightarrow>
          if format_yyyy_MM_dd tz scheduledDate = format_yyyy_MM_dd tz today then True
          else if truthy (repeat paper) then
            (let daysSinceScheduled = daysBetween today scheduledDate
             in if repeat paper = Some ''daily'' then True
                else if repeat paper = Some ''weekly'' then js_rem daysSinceScheduled 7 = 0
                else if repeat paper = Some ''monthly''
                  then getDate tz scheduledDate = getDate tz today
                else False)
          else False)"

definition thisWeeksPapers_cb :: "int \<Rightarrow> int \<Rightarrow> paper \<Rightarrow> bool" where
  "thisWeeksPapers_cb tz today paper =
     (case scheduled_date paper of
        None \<Rightarrow> False
      | Some scheduledDate \<Rightarrow>
          (let weekStart = startOfWeek tz today;
               weekEnd = endOfWeek tz today
           in if \<not> truthy (repeat paper)
                then isWithinInterval scheduledDate weekStart weekEnd
              else if repeat paper = Some ''daily'' then True
              else if repeat paper = Some ''weekly'' then
                (let daysSinceScheduled = daysBetween weekStart scheduledDate;
                     daysToAdd = 7 - js_rem daysSinceScheduled 7;
                     nextOccurrence = setDate tz weekStart (getDate tz weekStart + daysToAdd)
                 in isWithinInterval nextOccurrence weekStart weekEnd)
              else if repeat paper = Some ''monthly'' then
                (let monthlyDate =
                       new_Date_ymd tz (getFullYear tz today) (getMonth tz today)
                         (getDate tz scheduledDate)
                 in isWithinInterval monthlyDate weekStart weekEnd)
              else False))"

definition upcomingPapers_cb :: "int \<Rightarrow> int \<Rightarrow> paper \<Rightarrow> bool" where
  "upcomingPapers_cb tz now p =
     (case scheduled_date p of
        None \<Rightarrow> False
      | Some scheduledDate \<Rightarrow>
          (let today = setHours0 tz now
           in if scheduledDate < today then False
              else if truthy (repeat p) then
                (if repeat p = Some ''daily'' then True
                 else if repeat p = Some ''weekly'' then
                   (let daysSinceScheduled = daysBetween today scheduledDate;
                        daysUntilNext = 7 - js_rem daysSinceScheduled 7
                    in daysUntilNext > 0)
                 else if repeat p = Some ''monthly'' then
                   (let nextOccurrence =
                          new_Date_ymd tz (getFullYear tz today) (getMonth tz today)
                            (getDate tz scheduledDate);
                        nextOccurrence' =
                          (if nextOccurrence < today
                           then setMonth tz nextOccurrence (getMonth tz nextOccurrence + 1)
                           else nextOccurrence)
                    in nextOccurrence' \<ge> today)
                 else False)
              else scheduledDate \<ge> today))"

subsection \<open>The today callback in a zone whose offset changes\<close>

text \<open>
  The today callback builds no date of its own: every calendar field it reads is a
  field of one of its two instants, taken with the offset in force at that instant, and
  its count of periods does not depend on the zone. So it can be written for a zone
  with daylight-saving changes as well: \<open>zone t\<close> is the offset in force at the
  instant \<open>t\<close>. \<open>todaysPapers_cb\<close> above is the case of a zone that never changes.
  (The week and the upcoming callbacks build new local dates with \<open>startOfWeek\<close>,
  \<open>setHours\<close>, \<open>new Date(y, m, d)\<close> and \<open>setMonth\<close>; they are modelled in a zone of
  fixed offset only.)
\<close>

type_synonym zone = "int \<Rightarrow> int"

definition todaysPapers_cb_zone :: "zone \<Rightarrow> int \<Rightarrow> paper \<Rightarrow> bool" where
  "todaysPapers_cb_zone zone today paper =
     (case scheduled_date paper of
        None \<Rightarrow> False
      | Some scheduledDate \<Rightarrow>
          if format_yyyy_MM_dd (zone scheduledDate) scheduledDate =
               format_yyyy_MM_dd (zone today) today then True
          else if truthy (repeat paper) then
            (let daysSinceScheduled = daysBetween today scheduledDate
             in if repeat paper = Some ''daily'' then True
                else if repeat paper = Some ''weekly'' then js_rem daysSinceScheduled 7 = 0
                else if repeat paper = Some ''monthly''
                  then getDate (zone scheduledDate) scheduledDate = getDate (zone today) today
                else False)
          else False)"

definition fixed_zone :: "int \<Rightarrow> zone" where
  "fixed_zone tz t = tz"

text \<open>
  US Eastern time in 2024, for the examples: UTC-4 from 2024-03-10 07:00 UTC to
  2024-11-03 06:00 UTC, UTC-5 before and after.
\<close>

definition US_Eastern_2024 :: zone where
  "US_Eastern_2024 t =
     (if Date_UTC 2024 2 10 7 0 \<le> t \<and> t < Date_UTC 2024 10 3 6 0
      then - 4 * 3600000 else - 5 * 3600000)"

section \<open>The three lists, with the clock\<close>

text \<open>
  The clock is the stream of the values that successive \<open>new Date()\<close> calls return.
  \<open>papers.filter(cb)\<close> runs the callback on each paper in order and keeps the papers
  for which it returns \<open>true\<close>, in the order of \<open>papers\<close>; a callback run reads the
  clock once, after its guard on \<open>scheduled_date\<close>.
\<close>

type_synonym clock = "int stream"

fun filter_clock :: "(int \<Rightarrow> paper \<Rightarrow> bool) \<Rightarrow> clock \<Rightarrow> paper list \<Rightarrow> paper list \<times> clock" where
  "filter_clock cb clk [] = ([], clk)"
| "filter_clock cb clk (p # ps) =
     (case scheduled_date p of
        None \<Rightarrow> filter_clock cb clk ps
      | Some scheduledDate \<Rightarrow>
          (let r = filter_clock cb (stl clk) ps
           in (if cb (shd clk) p then p # fst r else fst r, snd r)))"

text \<open>The number of clock readings one filter makes: one for each scheduled paper.\<close>

definition reads :: "paper list \<Rightarrow> nat" where
  "reads ps = length (filter (\<lambda>p. scheduled_date p \<noteq> None) ps)"

definition todaysPapers :: "int \<Rightarrow> clock \<Rightarrow> paper list \<Rightarrow> paper list \<times> clock" where
  "todaysPapers tz clk papers = filter_clock (todaysPapers_cb tz) clk papers"

definition thisWeeksPapers :: "int \<Rightarrow> clock \<Rightarrow> paper list \<Rightarrow> paper list \<times> clock" where
  "thisWeeksPapers tz clk papers = filter_clock (thisWeeksPapers_cb tz) clk papers"

definition upcomingPapers :: "int \<Rightarrow> clock \<Rightarrow> paper list \<Rightarrow> paper list \<times> clock" where
  "upcomingPapers tz clk papers = filter_clock (upcomingPapers_cb tz) clk papers"

text \<open>One render computes the three lists one after the other from the same papers.\<close>

record buckets =
  bucket_today :: "paper list"
  bucket_thisWeek :: "paper list"
  bucket_upcoming :: "paper list"

definition ReadingListPage_buckets :: "int \<Rightarrow> clock \<Rightarrow> paper list \<Rightarrow> buckets" where
  "ReadingListPage_buckets tz clk papers =
     (let r1 = todaysPapers tz clk papers;
          r2 = thisWeeksPapers tz (snd r1) papers;
          r3 = upcomingPapers tz (snd r2) papers
      in \<lparr>bucket_today = fst r1, bucket_thisWeek = fst r2, bucket_upcoming = fst r3\<rparr>)"

section \<open>Years and months as counts of days\<close>

text \<open>
  The notions the calendar functions compute with, named for the proofs. Years are
  counted from 1 March of year 0, months from March (0) to February (11).
  \<open>year_start Y\<close> is the number of days before 1 March of year \<open>Y\<close>,
  \<open>month_start mp\<close> the number of days of the year before month \<open>mp\<close>, and
  \<open>yoe_numer\<close> the numerator from which \<open>civil_from_days\<close> reads the year of a day
  within its 400 years.
\<close>

definition year_start :: "int \<Rightarrow> int" where
  "year_start k = 365 * k + k div 4 - k div 100 + k div 400"

definition month_start :: "int \<Rightarrow> int" where
  "month_start mp = (153 * mp + 2) div 5"

definition yoe_numer :: "int \<Rightarrow> int" where
  "yoe_numer doe = doe - doe div 1460 + doe div 36524 - doe div 146096"

section \<open>The occurrence rule as the specification words it\<close>

text \<open>
  The specification's \<open>occursOn(entry, targetDate)\<close>, written from its words for the
  comparison with the callbacks above: the anchor date and the target date are day
  numbers, and the recurrence is one of four tags.
\<close>

datatype recurrence = NoRecurrence | Daily | Weekly | Monthly

definition spec_daysInMonth :: "int \<Rightarrow> int \<Rightarrow> int" where
  "spec_daysInMonth year month =
     days_from_civil year (month + 1) 1 - days_from_civil year month 1"

definition spec_occursOn :: "recurrence \<Rightarrow> int \<Rightarrow> int \<Rightarrow> bool" where
  "spec_occursOn r anchor target =
     (case r of
        NoRecurrence \<Rightarrow> target = anchor
      | Daily \<Rightarrow> target \<ge> anchor
      | Weekly \<Rightarrow> target \<ge> anchor \<and> (target - anchor) mod 7 = 0
      | Monthly \<Rightarrow>
          target \<ge> anchor \<and>
          snd (snd (civil_from_days target)) =
            min (snd (snd (civil_from_days anchor)))
              (spec_daysInMonth (fst (civil_from_days target)) (fst (snd (civil_from_days target)))))"

section \<open>Properties\<close>

subsection \<open>Arithmetic of the helpers\<close>

lemma msPerDay_pos: "0 < msPerDay"
  by (simp add: msPerDay_def)

text \<open>\<open>n % 7 === 0\<close> holds exactly for the multiples of 7, of either sign.\<close>

lemma js_rem_7_eq_0: "js_rem a 7 = 0 \<longleftrightarrow> 7 dvd a"
  by (auto simp: js_rem_def sgn_if dvd_eq_mod_eq_0 zmod_zminus1_eq_if split: if_splits)

lemma js_rem_7_less: "js_rem a 7 < 7"
proof -
  have "0 \<le> \<bar>a\<bar> mod 7" "\<bar>a\<bar> mod 7 < 7" by simp_all
  then show ?thesis by (auto simp: js_rem_def sgn_if)
qed

text \<open>
  The whole 24-hour periods between two instants are the calendar days between their
  local dates when the time of day of the later reading, less the time of day of the
  other and less the change of offset between the two, is within one day. \<open>oa\<close> and
  \<open>ob\<close> are the offsets in force at \<open>a\<close> and at \<open>b\<close>.
\<close>

lemma daysBetween_localDay_offsets:
  assumes "timeInDay ob b + (oa - ob) \<le> timeInDay oa a"
    and "timeInDay oa a < timeInDay ob b + (oa - ob) + msPerDay"
  shows "daysBetween a b = localDay oa a - localDay ob b"
proof -
  define D where "D = msPerDay"
  have D: "0 < D" by (simp add: D_def msPerDay_def)
  define r where "r = (a + oa) mod D - (b + ob) mod D - (oa - ob)"
  have r: "0 \<le> r" "r < D"
    using assms by (simp_all add: r_def timeInDay_def D_def)
  have ea: "a + oa = (a + oa) div D * D + (a + oa) mod D" by simp
  have eb: "b + ob = (b + ob) div D * D + (b + ob) mod D" by simp
  have "a - b = (a + oa) - (b + ob) - (oa - ob)" by simp
  also have "\<dots> = D * ((a + oa) div D - (b + ob) div D) + r"
    unfolding r_def using ea eb by (simp add: algebra_simps)
  finally have "(a - b) div D = (a + oa) div D - (b + ob) div D"
    using r by (intro int_div_pos_eq [where r = r]) simp_all
  then show ?thesis by (simp add: daysBetween_def localDay_def D_def)
qed

text \<open>Local midnight of a day, and the day of a local midnight.\<close>

lemma localDay_midnight: "localDay tz (n * msPerDay - tz) = n"
  using msPerDay_pos by (simp add: localDay_def)

lemma timeInDay_midnight: "timeInDay tz (n * msPerDay - tz) = 0"
  by (simp add: timeInDay_def)

lemma midnight_le_iff: "n * msPerDay - tz \<le> k * msPerDay - tz \<longleftrightarrow> n \<le> k"
  using msPerDay_pos by simp

lemma midnight_less_iff: "n * msPerDay - tz < k * msPerDay - tz \<longleftrightarrow> n < k"
  using msPerDay_pos by simp

text \<open>
  The week of an instant contains the instant, so the interval that
  \<open>isWithinInterval\<close> receives from the callbacks is never empty.
\<close>

lemma week_contains_now: "isWithinInterval t (startOfWeek tz t) (endOfWeek tz t)"
proof -
  define D where "D = msPerDay"
  define L where "L = (t + tz) div D"
  define g where "g = (L + 4) mod 7"
  have D: "0 < D" by (simp add: D_def msPerDay_def)
  have g: "0 \<le> g" "g \<le> 6" by (simp_all add: g_def)
  have e: "t + tz = L * D + (t + tz) mod D"
    by (simp add: L_def)
  have lo: "L * D \<le> t + tz"
    using e pos_mod_sign[OF D, of "t + tz"] by linarith
  have hi: "t + tz < (L + 1) * D"
    using e pos_mod_bound[OF D, of "t + tz"] by (simp add: algebra_simps)
  have "(L - g) * D \<le> L * D" using g D by (simp add: mult_right_mono)
  then have a: "(L - g) * D - tz \<le> t" using lo by simp
  have "(L + 1) * D \<le> (L - g + 7) * D" using g D by (simp add: mult_right_mono)
  then have b: "t \<le> (L - g + 7) * D - tz - 1" using hi by simp
  show ?thesis
    using a b
    by (simp add: isWithinInterval_def startOfWeek_def endOfWeek_def getDay_def localDay_def
        D_def L_def g_def)
qed

subsection \<open>The calendar functions\<close>

text \<open>
  \<open>civil_from_days\<close> reads the year of a day from \<open>yoe_numer\<close>. That the reading
  is right is checked at the first and the last day of each of the 400 years of a
  cycle; \<open>yoe_numer\<close> is monotone in between.
\<close>

lemma endpoints_list:
  "list_all (\<lambda>k. 365 * k \<le> yoe_numer (year_start k) \<and>
        yoe_numer (year_start (k + 1) - 1) \<le> 365 * k + 364) [0..399]"
  by code_simp

lemma endpoints:
  assumes "0 \<le> k" "k \<le> 399"
  shows "365 * k \<le> yoe_numer (year_start k)"
    and "yoe_numer (year_start (k + 1) - 1) \<le> 365 * k + 364"
  using endpoints_list assms by (auto simp: list_all_iff)

lemma yoe_numer_146095: "yoe_numer 146095 \<le> yoe_numer (146095 + 1)"
  by code_simp

lemma yoe_numer_step:
  assumes "0 \<le> x" "x < 146096"
  shows "yoe_numer x \<le> yoe_numer (x + 1)"
proof (cases "x + 1 = 146096")
  case True
  then have "x = 146095" by simp
  then show ?thesis using yoe_numer_146095 by simp
next
  case False
  with assms have lt: "x + 1 < 146096" by simp
  define p where "p = x div 1460"
  define p' where "p' = (x + 1) div 1460"
  define q where "q = x div 36524"
  define q' where "q' = (x + 1) div 36524"
  have a: "(x + 1) div 146096 = 0" "x div 146096 = 0"
    using assms lt by (simp_all add: div_pos_pos_trivial)
  have b: "p' \<le> p + 1"
  proof -
    have "(x + 1) div 1460 \<le> (x + 1460) div 1460" by (rule zdiv_mono1) simp_all
    also have "\<dots> = x div 1460 + 1" by (simp only: div_add_self2)
    finally show ?thesis by (simp only: p_def p'_def)
  qed
  have c: "q \<le> q'" unfolding q_def q'_def by (rule zdiv_mono1) simp_all
  have "yoe_numer x = x - p + q - 0" by (simp only: yoe_numer_def a p_def q_def)
  moreover have "yoe_numer (x + 1) = x + 1 - p' + q' - 0"
    by (simp only: yoe_numer_def a p'_def q'_def)
  ultimately show ?thesis using b c by linarith
qed


lemma yoe_numer_mono:
  assumes "0 \<le> x" "x \<le> y" "y \<le> 146096"
  shows "yoe_numer x \<le> yoe_numer y"
proof -
  have "y \<le> 146096 \<longrightarrow> yoe_numer x \<le> yoe_numer y"
    using assms(2)
  proof (induction y rule: int_ge_induct)
    case base
    show ?case by simp
  next
    case (step i)
    show ?case
    proof
      assume i: "i + 1 \<le> 146096"
      then have "yoe_numer x \<le> yoe_numer i" using step.IH by simp
      moreover have "yoe_numer i \<le> yoe_numer (i + 1)"
        using yoe_numer_step [of i] assms(1) step.hyps i by simp
      ultimately show "yoe_numer x \<le> yoe_numer (i + 1)" by simp
    qed
  qed
  with assms(3) show ?thesis by simp
qed

lemma year_start_0: "year_start 0 = 0"
  by (simp add: year_start_def)

lemma year_start_400: "year_start 400 = 146097"
  by (simp add: year_start_def)

lemma year_start_less:
  assumes "j < k"
  shows "year_start j < year_start k"
proof -
  define a where "a = j div 4"
  define a' where "a' = k div 4"
  define b where "b = j div 100"
  define b' where "b' = k div 100"
  define c where "c = j div 400"
  define c' where "c' = k div 400"
  have 1: "a \<le> a'" unfolding a_def a'_def using assms by (intro zdiv_mono1) simp_all
  have 3: "c \<le> c'" unfolding c_def c'_def using assms by (intro zdiv_mono1) simp_all
  have "k div 100 \<le> (j + (k - j) * 100) div 100"
    using assms by (intro zdiv_mono1) simp_all
  also have "\<dots> = j div 100 + (k - j)" by simp
  finally have 2: "b' \<le> b + (k - j)" by (simp only: b_def b'_def)
  have "year_start j = 365 * j + a - b + c" by (simp only: year_start_def a_def b_def c_def)
  moreover have "year_start k = 365 * k + a' - b' + c'"
    by (simp only: year_start_def a'_def b'_def c'_def)
  ultimately show ?thesis using 1 2 3 assms by linarith
qed

lemma year_start_le: "j \<le> k \<Longrightarrow> year_start j \<le> year_start k"
  using year_start_less [of j k] by (cases "j = k") simp_all

lemma year_start_era: "year_start (k + 400 * e) = year_start k + 146097 * e"
proof -
  have a: "(k + 400 * e) div 4 = k div 4 + 100 * e"
    using div_mult_self2 [of 4 k "100 * e"] by simp
  have b: "(k + 400 * e) div 100 = k div 100 + 4 * e"
    using div_mult_self2 [of 100 k "4 * e"] by simp
  have c: "(k + 400 * e) div 400 = k div 400 + e"
    using div_mult_self2 [of 400 k e] by simp
  show ?thesis by (simp only: year_start_def a b c) simp
qed

lemma year_start_in_era:
  assumes "0 \<le> k" "k \<le> 399"
  shows "year_start k = 365 * k + k div 4 - k div 100"
  using assms by (simp add: year_start_def)

lemma year_length_le:
  assumes "0 \<le> k" "k \<le> 399"
  shows "year_start (k + 1) \<le> year_start k + 366"
proof (cases "k = 399")
  case True
  then show ?thesis by (simp add: year_start_def)
next
  case False
  define a where "a = k div 4"
  define a' where "a' = (k + 1) div 4"
  define b where "b = k div 100"
  define b' where "b' = (k + 1) div 100"
  have "(k + 1) div 4 \<le> (k + 4) div 4" by (rule zdiv_mono1) simp_all
  also have "\<dots> = k div 4 + 1" by (simp only: div_add_self2)
  finally have 1: "a' \<le> a + 1" by (simp only: a_def a'_def)
  have 2: "b \<le> b'" unfolding b_def b'_def by (rule zdiv_mono1) simp_all
  have "year_start k = 365 * k + a - b"
    using assms by (simp only: year_start_in_era a_def b_def)
  moreover have "year_start (k + 1) = 365 * (k + 1) + a' - b'"
    using assms False by (simp only: a'_def b'_def) (simp add: year_start_in_era)
  ultimately have "year_start (k + 1) - year_start k = 365 + a' - b' - (a - b)"
    by (simp only:) simp
  then show ?thesis using 1 2 by linarith
qed

lemma yoe_of_year:
  assumes "0 \<le> k" "k \<le> 399" "year_start k \<le> doe" "doe < year_start (k + 1)"
  shows "yoe_numer doe div 365 = k"
proof -
  have lo: "0 \<le> year_start k" using year_start_le [OF assms(1)] year_start_0 by simp
  have "year_start (k + 1) \<le> year_start 400" using assms(2) by (intro year_start_le) simp
  then have hi: "year_start (k + 1) - 1 \<le> 146096" using year_start_400 by simp
  have "365 * k \<le> yoe_numer (year_start k)" by (rule endpoints(1) [OF assms(1,2)])
  also have "\<dots> \<le> yoe_numer doe"
    using lo assms(3,4) hi by (intro yoe_numer_mono) simp_all
  finally have 1: "365 * k \<le> yoe_numer doe" .
  have "yoe_numer doe \<le> yoe_numer (year_start (k + 1) - 1)"
    using lo assms(3,4) hi by (intro yoe_numer_mono) simp_all
  also have "\<dots> \<le> 365 * k + 364" by (rule endpoints(2) [OF assms(1,2)])
  finally have 2: "yoe_numer doe \<le> 365 * k + 364" .
  define n where "n = yoe_numer doe"
  have "n div 365 = k"
  proof (rule int_div_pos_eq [where r = "n - 365 * k"])
    show "n = 365 * k + (n - 365 * k)" by simp
    show "0 \<le> n - 365 * k" using 1 by (simp add: n_def)
    show "n - 365 * k < 365" using 2 by (simp add: n_def)
  qed
  then show ?thesis by (simp only: n_def)
qed


lemma year_start_split:
  "year_start Y = 146097 * (Y div 400) + year_start (Y mod 400)"
  using year_start_era [of "Y mod 400" "Y div 400"] by (simp add: ac_simps)

lemma days_from_civil_normal:
  assumes "0 \<le> m" "m \<le> 11"
  shows "days_from_civil y m d =
    year_start (if m \<le> 1 then y - 1 else y) +
    month_start (if m \<le> 1 then m + 10 else m - 2) + d - 1 - 719468"
proof -
  define Y where "Y = (if m \<le> 1 then y - 1 else y)"
  define mp where "mp = (if m \<le> 1 then m + 10 else m - 2)"
  have m: "m div 12 = 0" "m mod 12 = m" using assms by simp_all
  have k: "0 \<le> Y mod 400" "Y mod 400 \<le> 399" by simp_all
  have "days_from_civil y m d =
      Y div 400 * 146097 + (Y mod 400 * 365 + Y mod 400 div 4 - Y mod 400 div 100
        + (153 * mp + 2) div 5) - 719468 + (d - 1)"
    by (simp only: days_from_civil_def Let_def m add_0_right Y_def mp_def)
  also have "\<dots> = 146097 * (Y div 400) + year_start (Y mod 400) + month_start mp + d - 1 - 719468"
    by (simp only: year_start_in_era [OF k] month_start_def)
  also have "\<dots> = year_start Y + month_start mp + d - 1 - 719468"
    by (simp only: year_start_split [of Y])
  finally show ?thesis by (simp only: Y_def mp_def)
qed

lemma days_from_civil_12: "days_from_civil y 12 d = days_from_civil (y + 1) 0 d"
  by (simp add: days_from_civil_def)

lemma civil_from_days_char:
  assumes "0 \<le> doy" "year_start Y + doy < year_start (Y + 1)"
  shows "civil_from_days (year_start Y + doy - 719468) =
    (if (5 * doy + 2) div 153 < 10
     then (Y, (5 * doy + 2) div 153 + 2, doy - month_start ((5 * doy + 2) div 153) + 1)
     else (Y + 1, (5 * doy + 2) div 153 - 10, doy - month_start ((5 * doy + 2) div 153) + 1))"
proof -
  define e where "e = Y div 400"
  define k where "k = Y mod 400"
  define doe where "doe = year_start k + doy"
  define mp where "mp = (5 * doy + 2) div 153"
  have k: "0 \<le> k" "k \<le> 399" by (simp_all add: k_def)
  have Y: "Y = k + 400 * e" by (simp add: k_def e_def)
  have ys: "year_start Y = year_start k + 146097 * e"
    unfolding Y by (rule year_start_era)
  have "Y + 1 = (k + 1) + 400 * e" using Y by simp
  then have ys1: "year_start (Y + 1) = year_start (k + 1) + 146097 * e"
    by (simp only: year_start_era)
  have lo: "0 \<le> year_start k" using year_start_le [OF k(1)] year_start_0 by simp
  have "year_start (k + 1) \<le> year_start 400" using k(2) by (intro year_start_le) simp
  then have hi: "year_start (k + 1) \<le> 146097" by (simp only: year_start_400)
  have doe1: "year_start k \<le> doe" using assms(1) by (simp add: doe_def)
  have doe2: "doe < year_start (k + 1)" using assms(2) ys ys1 by (simp add: doe_def)
  have doe0: "0 \<le> doe" "doe < 146097" using lo hi doe1 doe2 by simp_all
  have z: "year_start Y + doy - 719468 + 719468 = 146097 * e + doe"
    using ys by (simp add: doe_def)
  have zdiv: "(146097 * e + doe) div 146097 = e"
    by (rule int_div_pos_eq [where r = doe]) (use doe0 in simp_all)
  have zmod: "(146097 * e + doe) mod 146097 = doe"
    by (rule int_mod_pos_eq [where q = e]) (use doe0 in simp_all)
  have yoe: "(doe - doe div 1460 + doe div 36524 - doe div 146096) div 365 = k"
    using yoe_of_year [OF k doe1 doe2] by (simp only: yoe_numer_def)
  have doy: "doe - (365 * k + k div 4 - k div 100) = doy"
    using year_start_in_era [OF k] by (simp add: doe_def)
  have "civil_from_days (year_start Y + doy - 719468) =
      (if (if mp < 10 then mp + 2 else mp - 10) \<le> 1 then k + e * 400 + 1 else k + e * 400,
       if mp < 10 then mp + 2 else mp - 10, doy - (153 * mp + 2) div 5 + 1)"
    by (simp only: civil_from_days_def Let_def z zdiv zmod yoe doy mp_def)
  also have "k + e * 400 = Y" using Y by simp
  finally have 1: "civil_from_days (year_start Y + doy - 719468) =
      (if (if mp < 10 then mp + 2 else mp - 10) \<le> 1 then Y + 1 else Y,
       if mp < 10 then mp + 2 else mp - 10, doy - month_start mp + 1)"
    by (simp only: month_start_def)
  have mp0: "0 \<le> mp" using assms(1) by (simp add: mp_def)
  show ?thesis
  proof (cases "mp < 10")
    case True
    with mp0 have "\<not> mp + 2 \<le> 1" by simp
    with 1 True show ?thesis by (simp only: mp_def [symmetric] if_True if_False)
  next
    case False
    have "doy \<le> 365"
      using year_length_le [OF k] doe1 doe2 by (simp add: doe_def)
    then have "5 * doy + 2 < 153 * 12" by simp
    then have "mp < 12" unfolding mp_def by (simp add: div_less_iff_less_mult)
    with False have "mp - 10 \<le> 1" by simp
    with 1 False show ?thesis by (simp only: mp_def [symmetric] if_True if_False)
  qed
qed

lemma yoe_numer_0: "yoe_numer 0 = 0"
  by (simp add: yoe_numer_def)

lemma yoe_numer_last: "yoe_numer 146096 = 145999"
  by (simp add: yoe_numer_def)

lemma yoe_bounds:
  assumes "0 \<le> doe" "doe \<le> 146096" and k: "k = yoe_numer doe div 365"
  shows "0 \<le> k" "k \<le> 399" "year_start k \<le> doe" "doe < year_start (k + 1)"
proof -
  define n where "n = yoe_numer doe"
  define r where "r = n mod 365"
  have r: "0 \<le> r" "r < 365" by (simp_all add: r_def)
  have n: "n = 365 * k + r"
    unfolding k r_def n_def [symmetric] by simp
  have n0: "0 \<le> n"
    using yoe_numer_mono [of 0 doe] assms(1,2) yoe_numer_0 by (simp add: n_def)
  have n1: "n \<le> 145999"
    using yoe_numer_mono [of doe 146096] assms(1,2) yoe_numer_last by (simp add: n_def)
  show k0: "0 \<le> k" using n n0 r by linarith
  show k1: "k \<le> 399" using n n1 r by linarith
  show "year_start k \<le> doe"
  proof (rule ccontr)
    assume "\<not> year_start k \<le> doe"
    then have lt: "doe < year_start k" by simp
    have "k \<noteq> 0" using lt assms(1) year_start_0 by auto
    with k0 have j: "0 \<le> k - 1" "k - 1 \<le> 399" using k1 by simp_all
    have "year_start k \<le> year_start 400" using k1 by (intro year_start_le) simp
    then have "year_start k - 1 \<le> 146096" by (simp add: year_start_400)
    then have "n \<le> yoe_numer (year_start k - 1)"
      unfolding n_def using assms(1) lt by (intro yoe_numer_mono) simp_all
    also have "\<dots> \<le> 365 * (k - 1) + 364"
      using endpoints(2) [OF j] by simp
    finally show False using n r by simp
  qed
  show "doe < year_start (k + 1)"
  proof (rule ccontr)
    assume "\<not> doe < year_start (k + 1)"
    then have ge: "year_start (k + 1) \<le> doe" by simp
    have "k \<noteq> 399" using ge assms(2) year_start_400 by auto
    with k1 have j: "0 \<le> k + 1" "k + 1 \<le> 399" using k0 by simp_all
    have "0 \<le> year_start (k + 1)" using year_start_le [OF j(1)] year_start_0 by simp
    then have "yoe_numer (year_start (k + 1)) \<le> n"
      unfolding n_def using assms(2) ge by (intro yoe_numer_mono) simp_all
    moreover have "365 * (k + 1) \<le> yoe_numer (year_start (k + 1))"
      by (rule endpoints(1) [OF j])
    ultimately show False using n r by simp
  qed
qed

lemma day_number_decomp:
  obtains Y doy where "z = year_start Y + doy - 719468" "0 \<le> doy"
    "year_start Y + doy < year_start (Y + 1)"
proof -
  define e where "e = (z + 719468) div 146097"
  define doe where "doe = (z + 719468) mod 146097"
  define k where "k = yoe_numer doe div 365"
  have doe: "0 \<le> doe" "doe \<le> 146096" by (simp_all add: doe_def)
  note kb = yoe_bounds [OF doe k_def]
  have z: "z + 719468 = 146097 * e + doe" by (simp add: e_def doe_def)
  have ys: "year_start (k + 400 * e) = year_start k + 146097 * e" by (rule year_start_era)
  have "k + 400 * e + 1 = (k + 1) + 400 * e" by simp
  then have ys1: "year_start (k + 400 * e + 1) = year_start (k + 1) + 146097 * e"
    by (simp only: year_start_era)
  show thesis
  proof (rule that [of "k + 400 * e" "doe - year_start k"])
    show "z = year_start (k + 400 * e) + (doe - year_start k) - 719468"
      using z ys by simp
    show "0 \<le> doe - year_start k" using kb(3) by simp
    show "year_start (k + 400 * e) + (doe - year_start k) < year_start (k + 400 * e + 1)"
      using kb(4) ys ys1 by simp
  qed
qed

lemma month_index:
  fixes x mp :: int
  assumes "153 * mp \<le> 5 * x + 2" "5 * x + 2 < 153 * (mp + 1)"
  shows "(5 * x + 2) div 153 = mp"
  by (rule int_div_pos_eq [where r = "5 * x + 2 - 153 * mp"]) (use assms in simp_all)

lemma month_index_bounds:
  fixes doy :: int
  defines "mp \<equiv> (5 * doy + 2) div 153"
  shows "153 * mp \<le> 5 * doy + 2" "5 * doy + 2 < 153 * (mp + 1)"
proof -
  define r where "r = (5 * doy + 2) mod 153"
  have r: "0 \<le> r" "r < 153" by (simp_all add: r_def)
  have "5 * doy + 2 = 153 * mp + r" by (simp add: mp_def r_def)
  with r show "153 * mp \<le> 5 * doy + 2" "5 * doy + 2 < 153 * (mp + 1)" by simp_all
qed

lemma month_start_bounds:
  "5 * month_start mp \<le> 153 * mp + 2" "153 * mp + 2 < 5 * month_start mp + 5"
proof -
  define r where "r = (153 * mp + 2) mod 5"
  have r: "0 \<le> r" "r < 5" by (simp_all add: r_def)
  have "153 * mp + 2 = 5 * month_start mp + r" by (simp add: month_start_def r_def)
  with r show "5 * month_start mp \<le> 153 * mp + 2" "153 * mp + 2 < 5 * month_start mp + 5"
    by simp_all
qed

lemma year_length_le_all: "year_start (Y + 1) \<le> year_start Y + 366"
proof -
  define e where "e = Y div 400"
  define k where "k = Y mod 400"
  have k: "0 \<le> k" "k \<le> 399" by (simp_all add: k_def)
  have Y: "Y = k + 400 * e" by (simp add: k_def e_def)
  have ys: "year_start Y = year_start k + 146097 * e"
    unfolding Y by (rule year_start_era)
  have "Y + 1 = (k + 1) + 400 * e" using Y by simp
  then have ys1: "year_start (Y + 1) = year_start (k + 1) + 146097 * e"
    by (simp only: year_start_era)
  show ?thesis using year_length_le [OF k] ys ys1 by simp
qed

lemma month_start_0: "month_start 0 = 0"
  by (simp add: month_start_def)

lemma days_from_civil_next_month:
  assumes "0 \<le> mp" "mp \<le> 11"
  shows "days_from_civil (if mp < 10 then Y else Y + 1)
           ((if mp < 10 then mp + 2 else mp - 10) + 1) d =
         (if mp = 11 then year_start (Y + 1) + d - 1 - 719468
          else year_start Y + month_start (mp + 1) + d - 1 - 719468)"
proof -
  consider "mp \<le> 8" | "mp = 9" | "mp = 10" | "mp = 11"
    using assms by linarith
  then show ?thesis
  proof cases
    case 1
    with assms(1) have m: "0 \<le> mp + 3" "mp + 3 \<le> 11" "\<not> mp + 3 \<le> 1" by simp_all
    have "days_from_civil Y (mp + 3) d = year_start Y + month_start (mp + 1) + d - 1 - 719468"
      using days_from_civil_normal [OF m(1,2), of Y d] m(3) by (simp add: ac_simps)
    with 1 show ?thesis by (simp add: ac_simps)
  next
    case 2
    have "days_from_civil Y 12 d = year_start Y + month_start 10 + d - 1 - 719468"
      using days_from_civil_normal [of 0 "Y + 1" d] by (simp add: days_from_civil_12)
    with 2 show ?thesis by simp
  next
    case 3
    have "days_from_civil (Y + 1) 1 d = year_start Y + month_start 11 + d - 1 - 719468"
      using days_from_civil_normal [of 1 "Y + 1" d] by simp
    with 3 show ?thesis by simp
  next
    case 4
    have "days_from_civil (Y + 1) 2 d = year_start (Y + 1) + d - 1 - 719468"
      using days_from_civil_normal [of 2 "Y + 1" d] by (simp add: month_start_0)
    with 4 show ?thesis by simp
  qed
qed

lemma days_from_civil_this_month:
  assumes "0 \<le> mp" "mp \<le> 11"
  shows "days_from_civil (if mp < 10 then Y else Y + 1)
           (if mp < 10 then mp + 2 else mp - 10) d =
         year_start Y + month_start mp + d - 1 - 719468"
proof (cases "mp < 10")
  case True
  with assms(1) have m: "0 \<le> mp + 2" "mp + 2 \<le> 11" "\<not> mp + 2 \<le> 1" by simp_all
  show ?thesis using days_from_civil_normal [OF m(1,2), of Y d] m(3) True by simp
next
  case False
  with assms(2) have m: "0 \<le> mp - 10" "mp - 10 \<le> 11" "mp - 10 \<le> 1" by simp_all
  show ?thesis using days_from_civil_normal [OF m(1,2), of "Y + 1" d] m(3) False by simp
qed

text \<open>
  Within the month of a day: an earlier day of that month has the same year and month,
  and the same day of the following month is not before the day.
\<close>

lemma same_month_and_next_month:
  assumes L: "civil_from_days L = (y, m, d)" and D0: "1 \<le> D0"
    and lt: "days_from_civil y m D0 < L"
  shows "civil_from_days (days_from_civil y m D0) = (y, m, D0)"
    and "L \<le> days_from_civil y (m + 1) D0"
proof -
  obtain Y doy where Ld: "L = year_start Y + doy - 719468" and doy0: "0 \<le> doy"
    and doy1: "year_start Y + doy < year_start (Y + 1)"
    by (rule day_number_decomp [of L])
  define mp where "mp = (5 * doy + 2) div 153"
  define ms where "ms = month_start mp"
  define ms' where "ms' = month_start (mp + 1)"
  have mpb: "153 * mp \<le> 5 * doy + 2" "5 * doy + 2 < 153 * (mp + 1)"
    unfolding mp_def by (rule month_index_bounds)+
  have msb: "5 * ms \<le> 153 * mp + 2" "153 * mp + 2 < 5 * ms + 5"
    unfolding ms_def by (rule month_start_bounds)+
  have msb': "153 * (mp + 1) + 2 < 5 * ms' + 5"
    unfolding ms'_def by (rule month_start_bounds)
  have "doy \<le> 365" using year_length_le_all [of Y] doy1 by simp
  with mpb(1) doy0 mpb(2) have mp: "0 \<le> mp" "mp \<le> 11" by simp_all
  have ym: "y = (if mp < 10 then Y else Y + 1)" "m = (if mp < 10 then mp + 2 else mp - 10)"
    using civil_from_days_char [OF doy0 doy1] L
    by (auto simp only: Ld [symmetric] mp_def [symmetric] split: if_splits)
  have N: "days_from_civil y m D0 = year_start Y + ms + D0 - 1 - 719468"
    unfolding ym ms_def by (rule days_from_civil_this_month [OF mp])
  define doyN where "doyN = ms + D0 - 1"
  have N': "days_from_civil y m D0 = year_start Y + doyN - 719468"
    using N by (simp add: doyN_def)
  have lt': "doyN < doy" using lt N' Ld by simp
  have ms0: "0 \<le> ms" using msb(2) mp(1) by simp
  have doyN0: "0 \<le> doyN" using ms0 D0 by (simp add: doyN_def)
  have doyN1: "year_start Y + doyN < year_start (Y + 1)" using lt' doy1 by simp
  have "(5 * doyN + 2) div 153 = mp"
  proof (rule month_index)
    show "153 * mp \<le> 5 * doyN + 2" using msb(2) D0 by (simp add: doyN_def)
    show "5 * doyN + 2 < 153 * (mp + 1)" using lt' mpb(2) by simp
  qed
  then have "civil_from_days (year_start Y + doyN - 719468) =
      (if mp < 10 then (Y, mp + 2, doyN - ms + 1) else (Y + 1, mp - 10, doyN - ms + 1))"
    using civil_from_days_char [OF doyN0 doyN1] by (simp only: ms_def)
  also have "doyN - ms + 1 = D0" by (simp add: doyN_def)
  finally have "civil_from_days (days_from_civil y m D0) =
      (if mp < 10 then (Y, mp + 2, D0) else (Y + 1, mp - 10, D0))"
    by (simp only: N')
  then show "civil_from_days (days_from_civil y m D0) = (y, m, D0)"
    using ym by (simp split: if_splits)
  have nm: "days_from_civil y (m + 1) D0 =
      (if mp = 11 then year_start (Y + 1) + D0 - 1 - 719468
       else year_start Y + ms' + D0 - 1 - 719468)"
    unfolding ym ms'_def by (rule days_from_civil_next_month [OF mp])
  show "L \<le> days_from_civil y (m + 1) D0"
  proof (cases "mp = 11")
    case True
    then show ?thesis using nm Ld doy1 D0 by simp
  next
    case False
    have "doy \<le> ms'" using msb' mpb(2) by simp
    then show ?thesis using nm Ld D0 False by simp
  qed
qed

lemma civil_day_ge_1: "1 \<le> snd (snd (civil_from_days z))"
proof -
  obtain Y doy where zd: "z = year_start Y + doy - 719468" and doy0: "0 \<le> doy"
    and doy1: "year_start Y + doy < year_start (Y + 1)"
    by (rule day_number_decomp [of z])
  define mp where "mp = (5 * doy + 2) div 153"
  have mpb: "153 * mp \<le> 5 * doy + 2"
    unfolding mp_def by (rule month_index_bounds)
  have msb: "5 * month_start mp \<le> 153 * mp + 2" by (rule month_start_bounds)
  have "month_start mp \<le> doy" using mpb msb by simp
  then show ?thesis
    using civil_from_days_char [OF doy0 doy1]
    by (simp add: zd mp_def split: if_splits)
qed

text \<open>
  The monthly branch of the upcoming callback: when the anchor's day of the month has
  passed in the month of today, the same day of the following month is not before
  today.
\<close>

lemma monthly_next_occurrence:
  assumes "new_Date_ymd tz (getFullYear tz today) (getMonth tz today) D0 < today"
    and today: "today = setHours0 tz now" and D0: "1 \<le> D0"
  shows "today \<le> setMonth tz (new_Date_ymd tz (getFullYear tz today) (getMonth tz today) D0)
           (getMonth tz (new_Date_ymd tz (getFullYear tz today) (getMonth tz today) D0) + 1)"
proof -
  define L where "L = localDay tz now"
  obtain y m d where c: "civil_from_days L = (y, m, d)" by (cases "civil_from_days L")
  have t: "today = L * msPerDay - tz" by (simp add: today setHours0_def L_def)
  have Lt: "localDay tz today = L" unfolding t by (rule localDay_midnight)
  have ym: "getFullYear tz today = y" "getMonth tz today = m"
    by (simp_all add: getFullYear_def getMonth_def Lt c)
  define N where "N = days_from_civil y m D0"
  have n: "new_Date_ymd tz (getFullYear tz today) (getMonth tz today) D0 = N * msPerDay - tz"
    by (simp add: new_Date_ymd_def ym N_def)
  have "N * msPerDay - tz < today" using assms(1) by (simp only: n)
  then have lt: "N < L" by (simp only: t midnight_less_iff)
  note sm = same_month_and_next_month [OF c D0 lt [unfolded N_def]]
  have cN: "civil_from_days N = (y, m, D0)" using sm(1) by (simp only: N_def)
  have LN: "localDay tz (N * msPerDay - tz) = N" by (rule localDay_midnight)
  have "setMonth tz (N * msPerDay - tz) (getMonth tz (N * msPerDay - tz) + 1) =
      days_from_civil y (m + 1) D0 * msPerDay - tz"
    by (simp add: setMonth_def getFullYear_def getMonth_def getDate_def LN cN timeInDay_midnight)
  moreover have "L * msPerDay - tz \<le> days_from_civil y (m + 1) D0 * msPerDay - tz"
    using sm(2) by (simp only: midnight_le_iff)
  ultimately have "L * msPerDay - tz \<le>
      setMonth tz (N * msPerDay - tz) (getMonth tz (N * msPerDay - tz) + 1)"
    by simp
  then show ?thesis by (simp only: n) (simp only: t)
qed

text \<open>In a zone that never changes, the two forms of the today callback agree.\<close>

lemma todaysPapers_cb_fixed_zone:
  "todaysPapers_cb_zone (fixed_zone tz) today paper = todaysPapers_cb tz today paper"
  by (simp only: todaysPapers_cb_zone_def todaysPapers_cb_def fixed_zone_def)

subsection \<open>The filter over the list\<close>

text \<open>A filter keeps a subsequence of the papers, all of them scheduled.\<close>

lemma filter_clock_subseq: "subseq (fst (filter_clock cb clk ps)) ps"
  by (induction ps arbitrary: clk) (auto simp: Let_def split: option.splits)

lemma filter_clock_set:
  "set (fst (filter_clock cb clk ps)) \<subseteq> {p \<in> set ps. scheduled_date p \<noteq> None}"
  by (induction ps arbitrary: clk) (auto simp: Let_def split: option.splits if_splits)

lemma filter_clock_snd: "snd (filter_clock cb clk ps) = sdrop (reads ps) clk"
  by (induction ps arbitrary: clk) (auto simp: Let_def reads_def split: option.splits)

lemma filter_clock_sconst:
  "fst (filter_clock cb (sconst t) ps) = filter (\<lambda>p. scheduled_date p \<noteq> None \<and> cb t p) ps"
  "snd (filter_clock cb (sconst t) ps) = sconst t"
  by (induction ps) (auto simp: Let_def split: option.splits)

lemma filter_clock_agree:
  "stake (reads ps) c1 = stake (reads ps) c2 \<Longrightarrow>
   fst (filter_clock cb c1 ps) = fst (filter_clock cb c2 ps)"
proof (induction ps arbitrary: c1 c2)
  case Nil
  then show ?case by simp
next
  case (Cons p ps)
  show ?case
  proof (cases "scheduled_date p")
    case None
    with Cons.prems have "stake (reads ps) c1 = stake (reads ps) c2"
      by (simp add: reads_def)
    from Cons.IH [OF this] None show ?thesis by simp
  next
    case (Some s)
    with Cons.prems have "shd c1 = shd c2" "stake (reads ps) (stl c1) = stake (reads ps) (stl c2)"
      by (simp_all add: reads_def)
    with Cons.IH [of "stl c1" "stl c2"] Some show ?thesis by (simp add: Let_def)
  qed
qed

lemma stake_le:
  assumes "stake n c1 = stake n c2" and "m \<le> n"
  shows "stake m c1 = stake m c2"
proof -
  have "stake m c1 = take m (stake n c1)" using assms(2) by (simp add: take_stake min_def)
  also have "\<dots> = take m (stake n c2)" using assms(1) by simp
  also have "\<dots> = stake m c2" using assms(2) by (simp add: take_stake min_def)
  finally show ?thesis .
qed

lemma stake_sdrop_eq:
  assumes "stake (k + m) c1 = stake (k + m) c2"
  shows "stake m (sdrop k c1) = stake m (sdrop k c2)"
proof -
  have "stake m (sdrop k c1) = drop k (stake (k + m) c1)" by (simp add: drop_stake)
  also have "\<dots> = drop k (stake (k + m) c2)" using assms by simp
  also have "\<dots> = stake m (sdrop k c2)" by (simp add: drop_stake)
  finally show ?thesis .
qed

lemma reads_le: "reads ps \<le> length ps"
  by (simp add: reads_def)

subsection \<open>Monthly entries in the today list\<close>

text \<open>
  Claim C1, as the code has it. The specification asks for the occurrence of a monthly
  entry to fall on the anchor's day of the month clamped to the length of the target
  month, and only from the anchor date on. \<open>todaysPapers\<close> has neither the clamp nor
  the lower bound: a scheduled paper with \<open>repeat = 'monthly'\<close> is listed today exactly
  when today's day of the month equals the anchor's day of the month (which covers the
  anchor date itself). An anchor on the 31st is therefore listed in no month that is
  shorter than 31 days, and it is listed on matching days before the anchor date too.
\<close>

theorem monthly_today_same_day_of_month:
  assumes "scheduled_date p = Some s" and "repeat p = Some ''monthly''"
  shows "todaysPapers_cb tz now p \<longleftrightarrow> getDate tz s = getDate tz now"
  using assms
  by (auto simp: todaysPapers_cb_def truthy_def format_yyyy_MM_dd_def getDate_def)

text \<open>
  An entry anchored on 2024-01-31 at 09:00 UTC: listed on 2024-03-31, not listed on
  2024-02-29.
\<close>

theorem monthly_today_same_day_of_month_witness:
  "scheduled_date \<lparr>id_paper = ''p1'', scheduled_date = Some (Date_UTC 2024 0 31 9 0),
       repeat = Some ''monthly''\<rparr> = Some (Date_UTC 2024 0 31 9 0) \<and>
   repeat \<lparr>id_paper = ''p1'', scheduled_date = Some (Date_UTC 2024 0 31 9 0),
       repeat = Some ''monthly''\<rparr> = Some ''monthly'' \<and>
   todaysPapers_cb 0 (Date_UTC 2024 2 31 18 0)
     \<lparr>id_paper = ''p1'', scheduled_date = Some (Date_UTC 2024 0 31 9 0),
       repeat = Some ''monthly''\<rparr> \<and>
   \<not> todaysPapers_cb 0 (Date_UTC 2024 1 29 18 0)
     \<lparr>id_paper = ''p1'', scheduled_date = Some (Date_UTC 2024 0 31 9 0),
       repeat = Some ''monthly''\<rparr>"
proof -
  let ?p = "\<lparr>id_paper = ''p1'', scheduled_date = Some (Date_UTC 2024 0 31 9 0),
       repeat = Some ''monthly''\<rparr>"
  have h1: "scheduled_date ?p = Some (Date_UTC 2024 0 31 9 0)" by simp
  have h2: "repeat ?p = Some ''monthly''" by simp
  have g1: "getDate 0 (Date_UTC 2024 0 31 9 0) = getDate 0 (Date_UTC 2024 2 31 18 0)"
    by code_simp
  have g2: "getDate 0 (Date_UTC 2024 0 31 9 0) \<noteq> getDate 0 (Date_UTC 2024 1 29 18 0)"
    by code_simp
  show ?thesis
    using monthly_today_same_day_of_month [OF h1 h2, of 0 "Date_UTC 2024 2 31 18 0"]
      monthly_today_same_day_of_month [OF h1 h2, of 0 "Date_UTC 2024 1 29 18 0"] h1 h2 g1 g2
    by blast
qed

text \<open>
  The claim fails on the code at its own scenario. For the anchor 2024-01-31 the
  specification's rule gives an occurrence on 2024-02-29, the clamped day; the today
  callback returns \<open>false\<close> on that day, and the upcoming callback returns \<open>false\<close> on
  2024-02-01, where the claim expects the next occurrence 2024-02-29.
\<close>

theorem monthly_no_clamp_counterexample:
  "spec_occursOn Monthly (localDay 0 (Date_UTC 2024 0 31 0 0))
     (localDay 0 (Date_UTC 2024 1 29 12 0)) \<and>
   \<not> todaysPapers_cb 0 (Date_UTC 2024 1 29 12 0)
     \<lparr>id_paper = ''p1'', scheduled_date = Some (Date_UTC 2024 0 31 0 0),
       repeat = Some ''monthly''\<rparr> \<and>
   \<not> upcomingPapers_cb 0 (Date_UTC 2024 1 1 0 0)
     \<lparr>id_paper = ''p1'', scheduled_date = Some (Date_UTC 2024 0 31 0 0),
       repeat = Some ''monthly''\<rparr>"
  by code_simp

subsection \<open>Daily entries in the today list\<close>

text \<open>
  Claim C2, as the code has it. The specification lets a daily entry occur on every date
  from its anchor date on and on no earlier date. \<open>todaysPapers\<close> does not compare the
  reference date with the anchor: a scheduled paper with \<open>repeat = 'daily'\<close> is listed
  today at every reference instant, before the anchor date as well as after it.
\<close>

theorem daily_today_always:
  assumes "scheduled_date p = Some s" and "repeat p = Some ''daily''"
  shows "todaysPapers_cb tz now p"
  using assms by (simp add: todaysPapers_cb_def truthy_def)

theorem daily_today_always_witness:
  "scheduled_date \<lparr>id_paper = ''p2'', scheduled_date = Some (Date_UTC 2024 0 1 8 30),
       repeat = Some ''daily''\<rparr> = Some (Date_UTC 2024 0 1 8 30) \<and>
   repeat \<lparr>id_paper = ''p2'', scheduled_date = Some (Date_UTC 2024 0 1 8 30),
       repeat = Some ''daily''\<rparr> = Some ''daily'' \<and>
   todaysPapers_cb 0 (Date_UTC 2024 2 20 12 0)
     \<lparr>id_paper = ''p2'', scheduled_date = Some (Date_UTC 2024 0 1 8 30),
       repeat = Some ''daily''\<rparr>"
proof -
  let ?p = "\<lparr>id_paper = ''p2'', scheduled_date = Some (Date_UTC 2024 0 1 8 30),
       repeat = Some ''daily''\<rparr>"
  have h1: "scheduled_date ?p = Some (Date_UTC 2024 0 1 8 30)" by simp
  have h2: "repeat ?p = Some ''daily''" by simp
  show ?thesis
    using daily_today_always [OF h1 h2, of 0 "Date_UTC 2024 2 20 12 0"] h1 h2 by blast
qed

text \<open>
  A daily entry anchored on 2024-03-10 and the reference date 2024-03-05: the
  specification's rule has no occurrence, the today callback returns \<open>true\<close>.
\<close>

theorem daily_before_anchor_counterexample:
  "\<not> spec_occursOn Daily (localDay 0 (Date_UTC 2024 2 10 9 0))
       (localDay 0 (Date_UTC 2024 2 5 12 0)) \<and>
   todaysPapers_cb 0 (Date_UTC 2024 2 5 12 0)
     \<lparr>id_paper = ''p2'', scheduled_date = Some (Date_UTC 2024 2 10 9 0),
       repeat = Some ''daily''\<rparr>"
  by code_simp

subsection \<open>Weekly entries in the today list\<close>

text \<open>
  Claim C3, as the code has it. The specification counts whole calendar days from the
  anchor date, unaffected by daylight-saving shifts, and wants a non-negative multiple
  of 7. \<open>todaysPapers\<close> counts whole 24-hour periods between the two instants and has
  no lower bound. The two counts agree when the time of day of the reference instant,
  less the time of day of the anchor and less the change of the zone's offset from the
  anchor to the reference instant, lies between 0 and 24 hours; with the same offset at
  both instants that is: the reference instant is not earlier in its day than the
  anchor is in its own. For such a reference instant, less than \<open>2 ^ 53\<close>
  milliseconds from the anchor, a scheduled paper with \<open>repeat = 'weekly'\<close> is listed
  today exactly when the number of calendar days from the anchor's local date to
  today's local date is a multiple of 7, negative multiples included. (For the other
  reference instants the count of periods differs from the count of days; the theorem
  says nothing there.)
\<close>

theorem weekly_today_calendar_days:
  assumes "scheduled_date p = Some s" and "repeat p = Some ''weekly''"
    and "timeInDay (zone s) s + (zone now - zone s) \<le> timeInDay (zone now) now"
    and "timeInDay (zone now) now < timeInDay (zone s) s + (zone now - zone s) + msPerDay"
    and "\<bar>now - s\<bar> < 2 ^ 53"
  shows "todaysPapers_cb_zone zone now p \<longleftrightarrow>
         7 dvd (localDay (zone now) now - localDay (zone s) s)"
  using assms(1,2) daysBetween_localDay_offsets [OF assms(3,4)]
  by (auto simp: todaysPapers_cb_zone_def truthy_def format_yyyy_MM_dd_def js_rem_7_eq_0)

text \<open>
  In US Eastern time, across the change to daylight-saving time on 2024-03-10: anchor
  Monday 2024-03-04 at 09:00 EST (14:00 UTC), clock Monday 2024-03-18 at 10:00 EDT
  (14:00 UTC), fourteen whole periods later; the paper is listed. In UTC: the same
  kind of paper anchored on 2024-03-04 at 09:00 is listed on Monday 2024-02-19 at
  10:00, two weeks before the anchor.
\<close>

theorem weekly_today_calendar_days_witness:
  "scheduled_date \<lparr>id_paper = ''p3'', scheduled_date = Some (Date_UTC 2024 2 4 14 0),
       repeat = Some ''weekly''\<rparr> = Some (Date_UTC 2024 2 4 14 0) \<and>
   repeat \<lparr>id_paper = ''p3'', scheduled_date = Some (Date_UTC 2024 2 4 14 0),
       repeat = Some ''weekly''\<rparr> = Some ''weekly'' \<and>
   timeInDay (US_Eastern_2024 (Date_UTC 2024 2 4 14 0)) (Date_UTC 2024 2 4 14 0) +
       (US_Eastern_2024 (Date_UTC 2024 2 18 14 0) - US_Eastern_2024 (Date_UTC 2024 2 4 14 0))
     \<le> timeInDay (US_Eastern_2024 (Date_UTC 2024 2 18 14 0)) (Date_UTC 2024 2 18 14 0) \<and>
   timeInDay (US_Eastern_2024 (Date_UTC 2024 2 18 14 0)) (Date_UTC 2024 2 18 14 0)
     < timeInDay (US_Eastern_2024 (Date_UTC 2024 2 4 14 0)) (Date_UTC 2024 2 4 14 0) +
       (US_Eastern_2024 (Date_UTC 2024 2 18 14 0) - US_Eastern_2024 (Date_UTC 2024 2 4 14 0)) +
       msPerDay \<and>
   \<bar>Date_UTC 2024 2 18 14 0 - Date_UTC 2024 2 4 14 0\<bar> < 2 ^ 53 \<and>
   todaysPapers_cb_zone US_Eastern_2024 (Date_UTC 2024 2 18 14 0)
     \<lparr>id_paper = ''p3'', scheduled_date = Some (Date_UTC 2024 2 4 14 0),
       repeat = Some ''weekly''\<rparr> \<and>
   todaysPapers_cb_zone (fixed_zone 0) (Date_UTC 2024 1 19 10 0)
     \<lparr>id_paper = ''p3'', scheduled_date = Some (Date_UTC 2024 2 4 9 0),
       repeat = Some ''weekly''\<rparr>"
proof -
  let ?s = "Date_UTC 2024 2 4 14 0"
  let ?n = "Date_UTC 2024 2 18 14 0"
  let ?p = "\<lparr>id_paper = ''p3'', scheduled_date = Some ?s, repeat = Some ''weekly''\<rparr>"
  let ?s' = "Date_UTC 2024 2 4 9 0"
  let ?n' = "Date_UTC 2024 1 19 10 0"
  let ?p' = "\<lparr>id_paper = ''p3'', scheduled_date = Some ?s', repeat = Some ''weekly''\<rparr>"
  have h1: "scheduled_date ?p = Some ?s" by simp
  have h2: "repeat ?p = Some ''weekly''" by simp
  have h3: "timeInDay (US_Eastern_2024 ?s) ?s + (US_Eastern_2024 ?n - US_Eastern_2024 ?s)
      \<le> timeInDay (US_Eastern_2024 ?n) ?n"
    by code_simp
  have h4: "timeInDay (US_Eastern_2024 ?n) ?n
      < timeInDay (US_Eastern_2024 ?s) ?s + (US_Eastern_2024 ?n - US_Eastern_2024 ?s) + msPerDay"
    by code_simp
  have h5: "\<bar>?n - ?s\<bar> < 2 ^ 53" by code_simp
  have g: "localDay (US_Eastern_2024 ?n) ?n - localDay (US_Eastern_2024 ?s) ?s = 7 * 2"
    by code_simp
  have d: "7 dvd (localDay (US_Eastern_2024 ?n) ?n - localDay (US_Eastern_2024 ?s) ?s)"
    unfolding g by (rule dvd_triv_left)
  have k1: "scheduled_date ?p' = Some ?s'" by simp
  have k2: "repeat ?p' = Some ''weekly''" by simp
  have k3: "timeInDay (fixed_zone 0 ?s') ?s' + (fixed_zone 0 ?n' - fixed_zone 0 ?s')
      \<le> timeInDay (fixed_zone 0 ?n') ?n'"
    by code_simp
  have k4: "timeInDay (fixed_zone 0 ?n') ?n'
      < timeInDay (fixed_zone 0 ?s') ?s' + (fixed_zone 0 ?n' - fixed_zone 0 ?s') + msPerDay"
    by code_simp
  have k5: "\<bar>?n' - ?s'\<bar> < 2 ^ 53" by code_simp
  have g': "localDay (fixed_zone 0 ?n') ?n' - localDay (fixed_zone 0 ?s') ?s' = 7 * (- 2)"
    by code_simp
  have d': "7 dvd (localDay (fixed_zone 0 ?n') ?n' - localDay (fixed_zone 0 ?s') ?s')"
    unfolding g' by (rule dvd_triv_left)
  show ?thesis
    using weekly_today_calendar_days [OF h1 h2 h3 h4 h5]
      weekly_today_calendar_days [OF k1 k2 k3 k4 k5] h1 h2 h3 h4 h5 d d'
    by blast
qed

text \<open>
  The claim fails on the code in both directions. Anchor Monday 2024-03-04 at 10:00
  and reference Monday 2024-03-18 at 09:00 (UTC): the specification's rule has an
  occurrence, the callback counts 13 periods and returns \<open>false\<close>. Anchor 2024-03-04 at
  23:00 and reference Tuesday 2024-03-19 at 09:00: no occurrence by the rule, the
  callback counts 14 periods and returns \<open>true\<close>. Anchor 2024-03-18 and reference
  2024-03-04, two weeks before it: no occurrence by the rule, the callback returns
  \<open>true\<close>. And a daylight-saving change does shift the result: in US Eastern time,
  anchor Monday 2024-03-04 at 09:00 EST and reference Monday 2024-03-18 at 09:00 EDT
  (13:00 UTC), the same wall-clock time fourteen calendar days later, the callback
  counts 13 periods and returns \<open>false\<close>.
\<close>

theorem weekly_instant_arithmetic_counterexample:
  "spec_occursOn Weekly (localDay 0 (Date_UTC 2024 2 4 10 0))
     (localDay 0 (Date_UTC 2024 2 18 9 0)) \<and>
   \<not> todaysPapers_cb 0 (Date_UTC 2024 2 18 9 0)
     \<lparr>id_paper = ''p3'', scheduled_date = Some (Date_UTC 2024 2 4 10 0),
       repeat = Some ''weekly''\<rparr> \<and>
   \<not> spec_occursOn Weekly (localDay 0 (Date_UTC 2024 2 4 23 0))
       (localDay 0 (Date_UTC 2024 2 19 9 0)) \<and>
   todaysPapers_cb 0 (Date_UTC 2024 2 19 9 0)
     \<lparr>id_paper = ''p4'', scheduled_date = Some (Date_UTC 2024 2 4 23 0),
       repeat = Some ''weekly''\<rparr> \<and>
   \<not> spec_occursOn Weekly (localDay 0 (Date_UTC 2024 2 18 10 0))
       (localDay 0 (Date_UTC 2024 2 4 10 0)) \<and>
   todaysPapers_cb 0 (Date_UTC 2024 2 4 10 0)
     \<lparr>id_paper = ''p5'', scheduled_date = Some (Date_UTC 2024 2 18 10 0),
       repeat = Some ''weekly''\<rparr> \<and>
   spec_occursOn Weekly
     (localDay (US_Eastern_2024 (Date_UTC 2024 2 4 14 0)) (Date_UTC 2024 2 4 14 0))
     (localDay (US_Eastern_2024 (Date_UTC 2024 2 18 13 0)) (Date_UTC 2024 2 18 13 0)) \<and>
   \<not> todaysPapers_cb_zone US_Eastern_2024 (Date_UTC 2024 2 18 13 0)
     \<lparr>id_paper = ''p3'', scheduled_date = Some (Date_UTC 2024 2 4 14 0),
       repeat = Some ''weekly''\<rparr>"
  by code_simp

subsection \<open>The upcoming list\<close>

text \<open>
  Claim C4, as the code has it. The specification puts every entry that still has an
  occurrence into the upcoming bucket, so a daily entry anchored in the past stays in
  it. \<open>upcomingPapers\<close> starts with a guard on the anchor itself (\<open>Only include papers
  scheduled for future dates\<close>): a paper is in the upcoming list only if its anchor
  instant is not before local midnight of today, whatever its recurrence. For a paper
  whose \<open>repeat\<close> is absent or empty, \<open>'daily'\<close>, \<open>'weekly'\<close> or \<open>'monthly'\<close> the
  guard decides alone: the paper is in the upcoming list exactly when its anchor
  instant is not before local midnight of today. A daily entry anchored on an earlier
  day is therefore not in the upcoming list.
\<close>

theorem upcoming_iff_anchor_from_today_on:
  assumes "scheduled_date p = Some s"
  shows "(upcomingPapers_cb tz now p \<longrightarrow> setHours0 tz now \<le> s) \<and>
         (repeat p \<in> {None, Some [], Some ''daily'', Some ''weekly'', Some ''monthly''} \<longrightarrow>
            (upcomingPapers_cb tz now p \<longleftrightarrow> setHours0 tz now \<le> s))"
proof -
  define today where "today = setHours0 tz now"
  have nec: "upcomingPapers_cb tz now p \<longrightarrow> today \<le> s"
    using assms
    by (auto simp: upcomingPapers_cb_def today_def truthy_def Let_def split: if_splits)
  have absent: "upcomingPapers_cb tz now p \<longleftrightarrow> today \<le> s" if "\<not> truthy (repeat p)"
    using assms that by (auto simp: upcomingPapers_cb_def today_def Let_def)
  have daily: "upcomingPapers_cb tz now p \<longleftrightarrow> today \<le> s" if "repeat p = Some ''daily''"
    using assms that by (auto simp: upcomingPapers_cb_def today_def truthy_def Let_def)
  have weekly: "upcomingPapers_cb tz now p \<longleftrightarrow> today \<le> s" if "repeat p = Some ''weekly''"
    using assms that js_rem_7_less [of "daysBetween today s"]
    by (auto simp: upcomingPapers_cb_def today_def truthy_def Let_def)
  have monthly: "upcomingPapers_cb tz now p \<longleftrightarrow> today \<le> s" if r: "repeat p = Some ''monthly''"
  proof (cases "s < today")
    case True
    then show ?thesis
      using assms by (simp add: upcomingPapers_cb_def today_def [symmetric] Let_def)
  next
    case False
    define D0 where "D0 = getDate tz s"
    define n where "n = new_Date_ymd tz (getFullYear tz today) (getMonth tz today) D0"
    have D0: "1 \<le> D0" unfolding D0_def getDate_def by (rule civil_day_ge_1)
    have "today \<le> (if n < today then setMonth tz n (getMonth tz n + 1) else n)"
    proof (cases "n < today")
      case True
      then show ?thesis
        using monthly_next_occurrence [OF True [unfolded n_def] today_def D0]
        by (simp add: n_def)
    next
      case False
      then show ?thesis by simp
    qed
    then have "upcomingPapers_cb tz now p"
      using assms r False
      by (simp add: upcomingPapers_cb_def today_def [symmetric] truthy_def Let_def
          D0_def [symmetric] n_def [symmetric])
    with False show ?thesis by simp
  qed
  have undefined: "upcomingPapers_cb tz now p \<longleftrightarrow> today \<le> s" if "repeat p = None"
    using absent that by (simp add: truthy_def)
  have empty: "upcomingPapers_cb tz now p \<longleftrightarrow> today \<le> s" if "repeat p = Some []"
    using absent that by (simp add: truthy_def)
  show ?thesis
    using nec undefined empty daily weekly monthly unfolding today_def by blast
qed

text \<open>
  Seen on 2024-03-20 at 12:00 UTC, a monthly entry anchored on 2024-04-05: its day of
  the month has passed in March, and the callback moves to April; the entry is in the
  upcoming list.
\<close>

theorem upcoming_iff_anchor_from_today_on_witness:
  "scheduled_date \<lparr>id_paper = ''p6'', scheduled_date = Some (Date_UTC 2024 3 5 9 0),
       repeat = Some ''monthly''\<rparr> = Some (Date_UTC 2024 3 5 9 0) \<and>
   repeat \<lparr>id_paper = ''p6'', scheduled_date = Some (Date_UTC 2024 3 5 9 0),
       repeat = Some ''monthly''\<rparr>
     \<in> {None, Some [], Some ''daily'', Some ''weekly'', Some ''monthly''} \<and>
   setHours0 0 (Date_UTC 2024 2 20 12 0) \<le> Date_UTC 2024 3 5 9 0 \<and>
   upcomingPapers_cb 0 (Date_UTC 2024 2 20 12 0)
     \<lparr>id_paper = ''p6'', scheduled_date = Some (Date_UTC 2024 3 5 9 0),
       repeat = Some ''monthly''\<rparr>"
proof -
  let ?p = "\<lparr>id_paper = ''p6'', scheduled_date = Some (Date_UTC 2024 3 5 9 0),
       repeat = Some ''monthly''\<rparr>"
  have h1: "scheduled_date ?p = Some (Date_UTC 2024 3 5 9 0)" by simp
  have h2: "repeat ?p \<in> {None, Some [], Some ''daily'', Some ''weekly'', Some ''monthly''}"
    by simp
  have h3: "setHours0 0 (Date_UTC 2024 2 20 12 0) \<le> Date_UTC 2024 3 5 9 0" by code_simp
  show ?thesis
    using upcoming_iff_anchor_from_today_on [OF h1, of 0 "Date_UTC 2024 2 20 12 0"] h1 h2 h3
    by blast
qed

text \<open>
  A daily entry anchored on 2024-01-01, seen on 2024-03-20: the claim keeps it in the
  upcoming bucket, the callback returns \<open>false\<close>.
\<close>

theorem daily_past_anchor_not_upcoming_counterexample:
  "\<not> upcomingPapers_cb 0 (Date_UTC 2024 2 20 12 0)
     \<lparr>id_paper = ''p6'', scheduled_date = Some (Date_UTC 2024 0 1 9 0),
       repeat = Some ''daily''\<rparr>"
  by code_simp

subsection \<open>The week list against the today list\<close>

text \<open>
  Claim C5: an entry belongs to the week exactly when it occurs on some date of the
  week; a weekly entry whose occurrence falls on the first day of the week is in it.
  The code does not keep this for \<open>repeat = 'weekly'\<close>. \<open>thisWeeksPapers\<close> looks for
  the next occurrence after \<open>weekStart\<close> with \<open>7 - (daysSinceScheduled % 7)\<close>, which
  is 7 and not 0 when the anchor is a whole number of weeks before \<open>weekStart\<close>, so the
  occurrence it tests is the Sunday of the following week.

  In the week of Wednesday 2024-03-20 (Sunday 2024-03-17 00:00 to Saturday 2024-03-23
  23:59:59.999, UTC):
  \<^item> a weekly paper anchored on Sunday 2024-03-10 at 00:00 is listed by the today
    callback on Sunday 2024-03-17 at 00:00, the first instant of the week, and is not
    in the week list;
  \<^item> a weekly paper anchored on Saturday 2024-03-09 at 10:00 is listed by the today
    callback on Saturday 2024-03-23 at 10:00, inside the week, and is not in the week
    list;
  \<^item> the daily paper anchored on 2024-01-01 of the claim's scenario is in the week list.
\<close>

theorem thisWeek_weekly_misses_occurrence_in_week:
  "startOfWeek 0 (Date_UTC 2024 2 20 12 0) = Date_UTC 2024 2 17 0 0 \<and>
   endOfWeek 0 (Date_UTC 2024 2 20 12 0) = Date_UTC 2024 2 24 0 0 - 1 \<and>
   todaysPapers_cb 0 (Date_UTC 2024 2 17 0 0)
     \<lparr>id_paper = ''p7'', scheduled_date = Some (Date_UTC 2024 2 10 0 0),
       repeat = Some ''weekly''\<rparr> \<and>
   isWithinInterval (Date_UTC 2024 2 17 0 0)
     (startOfWeek 0 (Date_UTC 2024 2 20 12 0)) (endOfWeek 0 (Date_UTC 2024 2 20 12 0)) \<and>
   thisWeeksPapers_cb 0 (Date_UTC 2024 2 20 12 0)
     \<lparr>id_paper = ''p7'', scheduled_date = Some (Date_UTC 2024 2 10 0 0),
       repeat = Some ''weekly''\<rparr> = False \<and>
   todaysPapers_cb 0 (Date_UTC 2024 2 23 10 0)
     \<lparr>id_paper = ''p8'', scheduled_date = Some (Date_UTC 2024 2 9 10 0),
       repeat = Some ''weekly''\<rparr> \<and>
   isWithinInterval (Date_UTC 2024 2 23 10 0)
     (startOfWeek 0 (Date_UTC 2024 2 20 12 0)) (endOfWeek 0 (Date_UTC 2024 2 20 12 0)) \<and>
   thisWeeksPapers_cb 0 (Date_UTC 2024 2 20 12 0)
     \<lparr>id_paper = ''p8'', scheduled_date = Some (Date_UTC 2024 2 9 10 0),
       repeat = Some ''weekly''\<rparr> = False \<and>
   thisWeeksPapers_cb 0 (Date_UTC 2024 2 20 12 0)
     \<lparr>id_paper = ''p9'', scheduled_date = Some (Date_UTC 2024 0 1 10 0),
       repeat = Some ''daily''\<rparr> = True"
  by code_simp

subsection \<open>One-time entries\<close>

text \<open>
  Claim C6: an entry without recurrence has its single occurrence on the anchor date and
  is in the upcoming bucket exactly when the anchor date is not before the reference
  date. A paper is without recurrence when \<open>repeat\<close> is absent or is the declared
  value \<open>'none'\<close>. The today callback treats the two alike. The upcoming callback does
  not: \<open>'none'\<close> is a truthy string, so the callback enters the \<open>switch\<close>, where
  \<open>'none'\<close> reaches \<open>default: return false\<close>; the last line of the callback,
  \<open>return scheduledDate >= today\<close>, runs for an absent \<open>repeat\<close> only.

  Seen on 2024-06-01 at 12:00 UTC: a paper anchored on 2024-06-10 with \<open>repeat =
  'none'\<close> is not in the upcoming list, the same paper without \<open>repeat\<close> is; the paper
  of the claim's scenario, anchored on 2024-01-01 without \<open>repeat\<close>, is not.
\<close>

theorem upcoming_none_tag_excluded:
  "upcomingPapers_cb 0 (Date_UTC 2024 5 1 12 0)
     \<lparr>id_paper = ''p10'', scheduled_date = Some (Date_UTC 2024 5 10 10 0),
       repeat = Some ''none''\<rparr> = False \<and>
   upcomingPapers_cb 0 (Date_UTC 2024 5 1 12 0)
     \<lparr>id_paper = ''p10'', scheduled_date = Some (Date_UTC 2024 5 10 10 0),
       repeat = None\<rparr> = True \<and>
   upcomingPapers_cb 0 (Date_UTC 2024 5 1 12 0)
     \<lparr>id_paper = ''p11'', scheduled_date = Some (Date_UTC 2024 0 1 10 0),
       repeat = None\<rparr> = False \<and>
   todaysPapers_cb 0 (Date_UTC 2024 5 10 18 0)
     \<lparr>id_paper = ''p10'', scheduled_date = Some (Date_UTC 2024 5 10 10 0),
       repeat = Some ''none''\<rparr> = True \<and>
   todaysPapers_cb 0 (Date_UTC 2024 5 11 18 0)
     \<lparr>id_paper = ''p10'', scheduled_date = Some (Date_UTC 2024 5 10 10 0),
       repeat = Some ''none''\<rparr> = False"
  by code_simp

subsection \<open>The clock\<close>

text \<open>
  Claim C7, as the code has it. The specification passes the reference instant to the
  classification. The three filters take the papers only and read the clock themselves,
  once for each scheduled paper in each filter, so at most three times the number of
  papers in one render. The lists are a function of the papers, the time zone and those
  readings: two renders of the same papers under clocks that agree on that many
  readings produce the same three lists, in the same order.
\<close>

theorem buckets_determined_by_clock_readings:
  assumes "stake (3 * length papers) clk1 = stake (3 * length papers) clk2"
  shows "ReadingListPage_buckets tz clk1 papers = ReadingListPage_buckets tz clk2 papers"
proof -
  let ?k = "reads papers"
  have k: "?k + (?k + ?k) \<le> 3 * length papers"
    using reads_le [of papers] by simp
  have a3: "stake (?k + (?k + ?k)) clk1 = stake (?k + (?k + ?k)) clk2"
    by (rule stake_le [OF assms k])
  have a1: "stake ?k clk1 = stake ?k clk2"
    by (rule stake_le [OF a3]) simp
  have a2': "stake (?k + ?k) (sdrop ?k clk1) = stake (?k + ?k) (sdrop ?k clk2)"
    by (rule stake_sdrop_eq [OF a3])
  have a2: "stake ?k (sdrop ?k clk1) = stake ?k (sdrop ?k clk2)"
    by (rule stake_le [OF a2']) simp
  have a3': "stake ?k (sdrop ?k (sdrop ?k clk1)) = stake ?k (sdrop ?k (sdrop ?k clk2))"
    by (rule stake_sdrop_eq [OF a2'])
  show ?thesis
    using filter_clock_agree [OF a1, of "todaysPapers_cb tz"]
      filter_clock_agree [OF a2, of "thisWeeksPapers_cb tz"]
      filter_clock_agree [OF a3', of "upcomingPapers_cb tz"]
    by (simp add: ReadingListPage_buckets_def todaysPapers_def thisWeeksPapers_def
        upcomingPapers_def filter_clock_snd Let_def)
qed

text \<open>
  One paper, three readings on 2024-03-20; the two clocks differ from the fourth reading
  on.
\<close>

theorem buckets_determined_by_clock_readings_witness:
  "stake (3 * length [\<lparr>id_paper = ''p12'', scheduled_date = Some (Date_UTC 2024 2 20 10 0),
       repeat = None\<rparr>])
     (Date_UTC 2024 2 20 12 0 ## Date_UTC 2024 2 20 12 0 ## Date_UTC 2024 2 20 12 0 ##
        sconst (Date_UTC 2024 2 21 12 0)) =
   stake (3 * length [\<lparr>id_paper = ''p12'', scheduled_date = Some (Date_UTC 2024 2 20 10 0),
       repeat = None\<rparr>])
     (Date_UTC 2024 2 20 12 0 ## Date_UTC 2024 2 20 12 0 ## Date_UTC 2024 2 20 12 0 ##
        sconst (Date_UTC 2024 2 27 12 0)) \<and>
   ReadingListPage_buckets 0
     (Date_UTC 2024 2 20 12 0 ## Date_UTC 2024 2 20 12 0 ## Date_UTC 2024 2 20 12 0 ##
        sconst (Date_UTC 2024 2 21 12 0))
     [\<lparr>id_paper = ''p12'', scheduled_date = Some (Date_UTC 2024 2 20 10 0), repeat = None\<rparr>] =
   ReadingListPage_buckets 0
     (Date_UTC 2024 2 20 12 0 ## Date_UTC 2024 2 20 12 0 ## Date_UTC 2024 2 20 12 0 ##
        sconst (Date_UTC 2024 2 27 12 0))
     [\<lparr>id_paper = ''p12'', scheduled_date = Some (Date_UTC 2024 2 20 10 0), repeat = None\<rparr>]"
proof -
  let ?ps = "[\<lparr>id_paper = ''p12'', scheduled_date = Some (Date_UTC 2024 2 20 10 0),
       repeat = None\<rparr>]"
  let ?c1 = "Date_UTC 2024 2 20 12 0 ## Date_UTC 2024 2 20 12 0 ## Date_UTC 2024 2 20 12 0 ##
        sconst (Date_UTC 2024 2 21 12 0)"
  let ?c2 = "Date_UTC 2024 2 20 12 0 ## Date_UTC 2024 2 20 12 0 ## Date_UTC 2024 2 20 12 0 ##
        sconst (Date_UTC 2024 2 27 12 0)"
  have h: "stake (3 * length ?ps) ?c1 = stake (3 * length ?ps) ?c2"
    by (simp add: numeral_3_eq_3)
  show ?thesis
    using buckets_determined_by_clock_readings [OF h, of 0] h by blast
qed

text \<open>
  The claim fails on the code: the same single paper, scheduled on 2024-03-20, rendered
  when the clock reads 2024-03-20 and rendered again when it reads 2024-03-21. The
  explicit input is the same, the lists differ (the paper has left the today list).
\<close>

theorem buckets_change_with_clock_counterexample:
  "ReadingListPage_buckets 0 (sconst (Date_UTC 2024 2 20 12 0))
     [\<lparr>id_paper = ''p12'', scheduled_date = Some (Date_UTC 2024 2 20 10 0), repeat = None\<rparr>]
   \<noteq> ReadingListPage_buckets 0 (sconst (Date_UTC 2024 2 21 12 0))
     [\<lparr>id_paper = ''p12'', scheduled_date = Some (Date_UTC 2024 2 20 10 0), repeat = None\<rparr>]"
proof -
  let ?p = "\<lparr>id_paper = ''p12'', scheduled_date = Some (Date_UTC 2024 2 20 10 0),
       repeat = None\<rparr>"
  have a: "todaysPapers_cb 0 (Date_UTC 2024 2 20 12 0) ?p" by code_simp
  have b: "\<not> todaysPapers_cb 0 (Date_UTC 2024 2 21 12 0) ?p" by code_simp
  have "bucket_today (ReadingListPage_buckets 0 (sconst (Date_UTC 2024 2 20 12 0)) [?p]) = [?p]"
    using a by (simp add: ReadingListPage_buckets_def todaysPapers_def Let_def)
  moreover
  have "bucket_today (ReadingListPage_buckets 0 (sconst (Date_UTC 2024 2 21 12 0)) [?p]) = []"
    using b by (simp add: ReadingListPage_buckets_def todaysPapers_def Let_def)
  ultimately show ?thesis by (metis list.distinct(1))
qed

subsection \<open>Order within the lists\<close>

text \<open>
  Claim C8, as the code has it. The specification orders each bucket by occurrence date
  and then by id. None of the three lists is sorted: each is what \<open>filter\<close> leaves of
  \<open>papers\<close>, so its papers stand in the order in which they stand in \<open>papers\<close>.
\<close>

theorem buckets_keep_order_of_papers:
  "subseq (bucket_today (ReadingListPage_buckets tz clk papers)) papers \<and>
   subseq (bucket_thisWeek (ReadingListPage_buckets tz clk papers)) papers \<and>
   subseq (bucket_upcoming (ReadingListPage_buckets tz clk papers)) papers"
  by (simp add: ReadingListPage_buckets_def todaysPapers_def thisWeeksPapers_def
      upcomingPapers_def Let_def filter_clock_subseq)

text \<open>
  Two one-time papers, the first scheduled on 2024-03-25 and the second on 2024-03-22,
  seen on 2024-03-20: the upcoming list has the later occurrence first. Two papers
  scheduled at the same instant of 2024-03-20 with the ids \<open>b\<close> and \<open>a\<close> in that
  order: the today list has \<open>b\<close> before \<open>a\<close>.
\<close>

theorem buckets_not_sorted_counterexample:
  "map scheduled_date
     (bucket_upcoming (ReadingListPage_buckets 0 (sconst (Date_UTC 2024 2 20 12 0))
       [\<lparr>id_paper = ''a'', scheduled_date = Some (Date_UTC 2024 2 25 10 0), repeat = None\<rparr>,
        \<lparr>id_paper = ''b'', scheduled_date = Some (Date_UTC 2024 2 22 10 0), repeat = None\<rparr>]))
     = [Some (Date_UTC 2024 2 25 10 0), Some (Date_UTC 2024 2 22 10 0)] \<and>
   Date_UTC 2024 2 22 10 0 < Date_UTC 2024 2 25 10 0 \<and>
   map id_paper
     (bucket_today (ReadingListPage_buckets 0 (sconst (Date_UTC 2024 2 20 12 0))
       [\<lparr>id_paper = ''b'', scheduled_date = Some (Date_UTC 2024 2 20 10 0), repeat = None\<rparr>,
        \<lparr>id_paper = ''a'', scheduled_date = Some (Date_UTC 2024 2 20 10 0), repeat = None\<rparr>]))
     = [''b'', ''a'']"
proof -
  let ?a = "\<lparr>id_paper = ''a'', scheduled_date = Some (Date_UTC 2024 2 25 10 0), repeat = None\<rparr>"
  let ?b = "\<lparr>id_paper = ''b'', scheduled_date = Some (Date_UTC 2024 2 22 10 0), repeat = None\<rparr>"
  let ?c = "\<lparr>id_paper = ''b'', scheduled_date = Some (Date_UTC 2024 2 20 10 0), repeat = None\<rparr>"
  let ?d = "\<lparr>id_paper = ''a'', scheduled_date = Some (Date_UTC 2024 2 20 10 0), repeat = None\<rparr>"
  have a: "upcomingPapers_cb 0 (Date_UTC 2024 2 20 12 0) ?a" by code_simp
  have b: "upcomingPapers_cb 0 (Date_UTC 2024 2 20 12 0) ?b" by code_simp
  have c: "todaysPapers_cb 0 (Date_UTC 2024 2 20 12 0) ?c" by code_simp
  have d: "todaysPapers_cb 0 (Date_UTC 2024 2 20 12 0) ?d" by code_simp
  have lt: "Date_UTC 2024 2 22 10 0 < Date_UTC 2024 2 25 10 0" by code_simp
  have u: "bucket_upcoming (ReadingListPage_buckets 0 (sconst (Date_UTC 2024 2 20 12 0)) [?a, ?b])
      = [?a, ?b]"
    using a b
    by (simp add: ReadingListPage_buckets_def todaysPapers_def thisWeeksPapers_def
        upcomingPapers_def Let_def filter_clock_sconst)
  have t: "bucket_today (ReadingListPage_buckets 0 (sconst (Date_UTC 2024 2 20 12 0)) [?c, ?d])
      = [?c, ?d]"
    using c d
    by (simp add: ReadingListPage_buckets_def todaysPapers_def Let_def filter_clock_sconst)
  show ?thesis unfolding u t using lt by simp
qed

subsection \<open>Unrecognized recurrence tags\<close>

text \<open>
  Claim C9, as the code has it. The specification signals \<open>InvalidEntry\<close> for a
  recurrence outside its set. The callbacks signal nothing: each \<open>switch\<close> ends in
  \<open>default: return false\<close>. For a scheduled paper whose \<open>repeat\<close> is a non-empty
  string other than \<open>'none'\<close>, \<open>'daily'\<close>, \<open>'weekly'\<close> and \<open>'monthly'\<close>, the today
  callback returns \<open>true\<close> exactly on the anchor's calendar day, and the week and the
  upcoming callbacks return \<open>false\<close>.
\<close>

theorem unrecognized_repeat_returns_boolean:
  assumes "scheduled_date p = Some s" and "repeat p = Some r"
    and "r \<noteq> []" and "r \<noteq> ''none''"
    and "r \<noteq> ''daily''" and "r \<noteq> ''weekly''" and "r \<noteq> ''monthly''"
  shows "(todaysPapers_cb tz now p \<longleftrightarrow> localDay tz s = localDay tz now) \<and>
         \<not> thisWeeksPapers_cb tz now p \<and> \<not> upcomingPapers_cb tz now p"
  using assms
  by (auto simp: todaysPapers_cb_def thisWeeksPapers_cb_def upcomingPapers_cb_def truthy_def
      Let_def format_yyyy_MM_dd_def)

theorem unrecognized_repeat_returns_boolean_witness:
  "scheduled_date \<lparr>id_paper = ''p13'', scheduled_date = Some (Date_UTC 2024 2 22 9 0),
       repeat = Some ''yearly''\<rparr> = Some (Date_UTC 2024 2 22 9 0) \<and>
   repeat \<lparr>id_paper = ''p13'', scheduled_date = Some (Date_UTC 2024 2 22 9 0),
       repeat = Some ''yearly''\<rparr> = Some ''yearly'' \<and>
   ''yearly'' \<noteq> [] \<and> ''yearly'' \<noteq> ''none'' \<and> ''yearly'' \<noteq> ''daily'' \<and>
   ''yearly'' \<noteq> ''weekly'' \<and> ''yearly'' \<noteq> ''monthly'' \<and>
   localDay 0 (Date_UTC 2024 2 22 9 0) = localDay 0 (Date_UTC 2024 2 22 17 0) \<and>
   todaysPapers_cb 0 (Date_UTC 2024 2 22 17 0)
     \<lparr>id_paper = ''p13'', scheduled_date = Some (Date_UTC 2024 2 22 9 0),
       repeat = Some ''yearly''\<rparr> \<and>
   \<not> thisWeeksPapers_cb 0 (Date_UTC 2024 2 22 17 0)
     \<lparr>id_paper = ''p13'', scheduled_date = Some (Date_UTC 2024 2 22 9 0),
       repeat = Some ''yearly''\<rparr> \<and>
   \<not> upcomingPapers_cb 0 (Date_UTC 2024 2 22 17 0)
     \<lparr>id_paper = ''p13'', scheduled_date = Some (Date_UTC 2024 2 22 9 0),
       repeat = Some ''yearly''\<rparr>"
proof -
  let ?p = "\<lparr>id_paper = ''p13'', scheduled_date = Some (Date_UTC 2024 2 22 9 0),
       repeat = Some ''yearly''\<rparr>"
  have h1: "scheduled_date ?p = Some (Date_UTC 2024 2 22 9 0)" by simp
  have h2: "repeat ?p = Some ''yearly''" by simp
  have h3: "''yearly'' \<noteq> []" by simp
  have h4: "''yearly'' \<noteq> ''none''" by simp
  have h5: "''yearly'' \<noteq> ''daily''" by simp
  have h6: "''yearly'' \<noteq> ''weekly''" by simp
  have h7: "''yearly'' \<noteq> ''monthly''" by simp
  have g: "localDay 0 (Date_UTC 2024 2 22 9 0) = localDay 0 (Date_UTC 2024 2 22 17 0)"
    by code_simp
  show ?thesis
    using unrecognized_repeat_returns_boolean
      [OF h1 h2 h3 h4 h5 h6 h7, of 0 "Date_UTC 2024 2 22 17 0"] h1 h2 h3 h4 h5 h6 h7 g
    by blast
qed

text \<open>
  The claim fails on the code: for the tag \<open>'yearly'\<close> the callbacks return booleans.
  The paper is listed today on its anchor day, as a one-time paper would be, and the
  week and the upcoming callbacks drop it although its anchor is two days ahead in the
  same week.
\<close>

theorem unrecognized_repeat_no_error_counterexample:
  "todaysPapers_cb 0 (Date_UTC 2024 2 22 17 0)
     \<lparr>id_paper = ''p13'', scheduled_date = Some (Date_UTC 2024 2 22 9 0),
       repeat = Some ''yearly''\<rparr> = True \<and>
   todaysPapers_cb 0 (Date_UTC 2024 2 20 12 0)
     \<lparr>id_paper = ''p13'', scheduled_date = Some (Date_UTC 2024 2 22 9 0),
       repeat = Some ''yearly''\<rparr> = False \<and>
   thisWeeksPapers_cb 0 (Date_UTC 2024 2 20 12 0)
     \<lparr>id_paper = ''p13'', scheduled_date = Some (Date_UTC 2024 2 22 9 0),
       repeat = Some ''yearly''\<rparr> = False \<and>
   upcomingPapers_cb 0 (Date_UTC 2024 2 20 12 0)
     \<lparr>id_paper = ''p13'', scheduled_date = Some (Date_UTC 2024 2 22 9 0),
       repeat = Some ''yearly''\<rparr> = False"
  by code_simp

subsection \<open>Papers without a scheduled date\<close>

text \<open>
  Claim C10: for a paper without \<open>scheduled_date\<close> each of the three callbacks
  returns \<open>false\<close>, whatever its \<open>repeat\<close> is, and the paper is in none of the three
  lists. The guard is the first statement of each callback, before any date is built or
  read, so nothing is raised for the missing date.
\<close>

theorem unscheduled_paper_in_no_list:
  assumes "scheduled_date p = None"
  shows "\<not> todaysPapers_cb tz now p \<and> \<not> thisWeeksPapers_cb tz now p \<and>
         \<not> upcomingPapers_cb tz now p \<and>
         p \<notin> set (bucket_today (ReadingListPage_buckets tz clk papers)) \<and>
         p \<notin> set (bucket_thisWeek (ReadingListPage_buckets tz clk papers)) \<and>
         p \<notin> set (bucket_upcoming (ReadingListPage_buckets tz clk papers))"
proof -
  have cb: "\<not> todaysPapers_cb tz now p \<and> \<not> thisWeeksPapers_cb tz now p \<and>
      \<not> upcomingPapers_cb tz now p"
    using assms
    by (simp add: todaysPapers_cb_def thisWeeksPapers_cb_def upcomingPapers_cb_def)
  have out: "p \<notin> set (fst (filter_clock cb c papers))" for cb c
    using filter_clock_set [of cb c papers] assms by auto
  show ?thesis
    using cb out
    by (simp add: ReadingListPage_buckets_def todaysPapers_def thisWeeksPapers_def
        upcomingPapers_def Let_def)
qed

text \<open>A daily paper that was never scheduled, alone in the list of papers.\<close>

theorem unscheduled_paper_in_no_list_witness:
  "scheduled_date \<lparr>id_paper = ''p14'', scheduled_date = None, repeat = Some ''daily''\<rparr> = None \<and>
   \<not> todaysPapers_cb 0 (Date_UTC 2024 2 20 12 0)
       \<lparr>id_paper = ''p14'', scheduled_date = None, repeat = Some ''daily''\<rparr> \<and>
   \<not> thisWeeksPapers_cb 0 (Date_UTC 2024 2 20 12 0)
       \<lparr>id_paper = ''p14'', scheduled_date = None, repeat = Some ''daily''\<rparr> \<and>
   \<not> upcomingPapers_cb 0 (Date_UTC 2024 2 20 12 0)
       \<lparr>id_paper = ''p14'', scheduled_date = None, repeat = Some ''daily''\<rparr> \<and>
   \<lparr>id_paper = ''p14'', scheduled_date = None, repeat = Some ''daily''\<rparr>
     \<notin> set (bucket_today (ReadingListPage_buckets 0 (sconst (Date_UTC 2024 2 20 12 0))
         [\<lparr>id_paper = ''p14'', scheduled_date = None, repeat = Some ''daily''\<rparr>])) \<and>
   \<lparr>id_paper = ''p14'', scheduled_date = None, repeat = Some ''daily''\<rparr>
     \<notin> set (bucket_thisWeek (ReadingListPage_buckets 0 (sconst (Date_UTC 2024 2 20 12 0))
         [\<lparr>id_paper = ''p14'', scheduled_date = None, repeat = Some ''daily''\<rparr>])) \<and>
   \<lparr>id_paper = ''p14'', scheduled_date = None, repeat = Some ''daily''\<rparr>
     \<notin> set (bucket_upcoming (ReadingListPage_buckets 0 (sconst (Date_UTC 2024 2 20 12 0))
         [\<lparr>id_paper = ''p14'', scheduled_date = None, repeat = Some ''daily''\<rparr>]))"
proof -
  let ?p = "\<lparr>id_paper = ''p14'', scheduled_date = None, repeat = Some ''daily''\<rparr>"
  have h: "scheduled_date ?p = None" by simp
  show ?thesis
    using unscheduled_paper_in_no_list
      [OF h, of 0 "Date_UTC 2024 2 20 12 0" "sconst (Date_UTC 2024 2 20 12 0)" "[?p]"] h
    by blast
qed

end
